theory Spec2Isabelle
  imports Main "HOL-Library.Word"
begin

unbundle bit_operations_syntax

section \<open>Machine state of the CHIP-8 interpreter (internal/chip8/chip8.go)\<close>

text \<open>
  The Go struct \<^verbatim>\<open>Chip8\<close> holds fixed-size arrays. A Go array of length n is a total
  assignment of values to the indices below n, so each array is modelled as a function on
  \<^typ>\<open>nat\<close> of which only the indices below the array's length are ever read or written:
  an access whose index the source does not bound statically goes through a checked
  accessor that returns the Go run-time panic as an error value. The interface fields
  \<^verbatim>\<open>Input\<close> and \<^verbatim>\<open>Renderer\<close> are external collaborators: what \<^verbatim>\<open>PollKeys\<close>
  returns is an input of the model, and \<^verbatim>\<open>Renderer.Draw\<close> has no effect on the state.
\<close>

type_synonym u8 = "8 word"
type_synonym u16 = "16 word"

type_synonym rgba = "u8 \<times> u8 \<times> u8 \<times> u8"

record colorProfile =
  foreground :: rgba
  background :: rgba

record chip8 =
  registers :: "nat \<Rightarrow> u8"
  memory :: "nat \<Rightarrow> u8"
  programCounter :: u16
  indexRegister :: u16
  callStack :: "nat \<Rightarrow> u16"
  stackPointer :: u8
  opcode :: u16
  keyPad :: "nat \<Rightarrow> u8"
  delayTimer :: u8
  soundTimer :: u8
  display :: "nat \<Rightarrow> nat \<Rightarrow> bool"
  scaleFactor :: "32 word"
  running :: bool
  colorProfile :: colorProfile

text \<open>
  Errors as values: the run-time panic of an array access out of range (index and array
  length), and the error values that \<^verbatim>\<open>loadRom\<close> and \<^verbatim>\<open>Run\<close> return.
\<close>

datatype error =
    IndexOutOfRange nat nat
  | CouldNotOpenRom
  | RomTooLarge nat nat
  | FailedToLoadRom error

type_synonym opcodeHandler = "chip8 \<Rightarrow> error + chip8"

definition startAddress :: nat where
  "startAddress = 0x200"

definition fontStartAddress :: nat where
  "fontStartAddress = 0x50"

definition displayWidth :: nat where
  "displayWidth = 64"

definition displayHeight :: nat where
  "displayHeight = 32"

text \<open>The length of the memory array, \<^verbatim>\<open>len(c8.memory)\<close>.\<close>

definition memorySize :: nat where
  "memorySize = 4096"

definition fontSet :: "u8 list" where
  "fontSet =
    [0xF0, 0x90, 0x90, 0x90, 0xF0,
     0x20, 0x60, 0x20, 0x20, 0x70,
     0xF0, 0x10, 0xF0, 0x80, 0xF0,
     0xF0, 0x10, 0xF0, 0x10, 0xF0,
     0x90, 0x90, 0xF0, 0x10, 0x10,
     0xF0, 0x80, 0xF0, 0x10, 0xF0,
     0xF0, 0x80, 0xF0, 0x90, 0xF0,
     0xF0, 0x10, 0x20, 0x40, 0x40,
     0xF0, 0x90, 0xF0, 0x90, 0xF0,
     0xF0, 0x90, 0xF0, 0x10, 0xF0,
     0xF0, 0x90, 0xF0, 0x90, 0x90,
     0xE0, 0x90, 0xE0, 0x90, 0xE0,
     0xF0, 0x80, 0x80, 0x80, 0xF0,
     0xE0, 0x90, 0x90, 0x90, 0xE0,
     0xF0, 0x80, 0xF0, 0x80, 0xF0,
     0xF0, 0x80, 0xF0, 0x80, 0x80]"

definition profiles :: "string \<rightharpoonup> colorProfile" where
  "profiles = map_of
    [(''black-white'', \<lparr>foreground = (0, 0, 0, 255), background = (255, 255, 255, 255)\<rparr>),
     (''night-sky'', \<lparr>foreground = (0, 0, 68, 255), background = (255, 255, 204, 255)\<rparr>),
     (''console'', \<lparr>foreground = (0, 0, 0, 255), background = (34, 238, 34, 255)\<rparr>),
     (''honey'', \<lparr>foreground = (153, 102, 0, 255), background = (255, 204, 0, 255)\<rparr>)]"

text \<open>The zero value \<^verbatim>\<open>Chip8{}\<close>: every field zero, every pixel off.\<close>

definition zeroArray :: "nat \<Rightarrow> 'a::zero" where
  "zeroArray i = 0"

definition blankDisplay :: "nat \<Rightarrow> nat \<Rightarrow> bool" where
  "blankDisplay r c = False"

definition zeroChip8 :: chip8 where
  "zeroChip8 =
    \<lparr>registers = zeroArray, memory = zeroArray, programCounter = 0, indexRegister = 0,
     callStack = zeroArray, stackPointer = 0, opcode = 0, keyPad = zeroArray,
     delayTimer = 0, soundTimer = 0, display = blankDisplay, scaleFactor = 0,
     running = False,
     colorProfile = \<lparr>foreground = (0, 0, 0, 0), background = (0, 0, 0, 0)\<rparr>\<rparr>"

subsection \<open>Checked array accesses\<close>

definition readMemory :: "chip8 \<Rightarrow> u16 \<Rightarrow> error + u8" where
  "readMemory c8 a =
     (if unat a < memorySize then Inr (memory c8 (unat a))
      else Inl (IndexOutOfRange (unat a) memorySize))"

definition writeMemory :: "chip8 \<Rightarrow> u16 \<Rightarrow> u8 \<Rightarrow> error + chip8" where
  "writeMemory c8 a v =
     (if unat a < memorySize then Inr (c8\<lparr>memory := (memory c8)(unat a := v)\<rparr>)
      else Inl (IndexOutOfRange (unat a) memorySize))"

text \<open>
  Operand fields of the current opcode, as every handler extracts them. The register
  indices X and Y are nibbles, below 16 by construction, so \<^verbatim>\<open>registers[vx]\<close> and
  \<^verbatim>\<open>registers[vy]\<close> are always in bounds and are read without a check.
\<close>

definition opX :: "chip8 \<Rightarrow> nat" where
  "opX c8 = unat (drop_bit 8 (opcode c8 AND 0x0F00))"

definition opY :: "chip8 \<Rightarrow> nat" where
  "opY c8 = unat (drop_bit 4 (opcode c8 AND 0x00F0))"

definition opKK :: "chip8 \<Rightarrow> u8" where
  "opKK c8 = ucast (opcode c8 AND 0x00FF)"

definition opNNN :: "chip8 \<Rightarrow> u16" where
  "opNNN c8 = opcode c8 AND 0x0FFF"

definition opN :: "chip8 \<Rightarrow> nat" where
  "opN c8 = unat (opcode c8 AND 0x000F)"

definition setVF :: "chip8 \<Rightarrow> u8 \<Rightarrow> chip8" where
  "setVF c8 v = c8\<lparr>registers := (registers c8)(0xF := v)\<rparr>"

subsection \<open>Fetch and decode\<close>

definition fetch :: "chip8 \<Rightarrow> error + chip8" where
  "fetch c8 =
     (case readMemory c8 (programCounter c8) of
        Inl e \<Rightarrow> Inl e
      | Inr hi \<Rightarrow>
          (case readMemory c8 (programCounter c8 + 1) of
             Inl e \<Rightarrow> Inl e
           | Inr lo \<Rightarrow> Inr (c8\<lparr>opcode := push_bit 8 (ucast hi) OR ucast lo\<rparr>)))"

definition decodeOpcode :: "chip8 \<Rightarrow> u16" where
  "decodeOpcode c8 =
     (let family = opcode c8 AND 0xF000 in
      if family = 0x0000 then opcode c8 AND 0x00FF
      else if family = 0x8000 then opcode c8 AND 0xF00F
      else if family = 0xE000 \<or> family = 0xF000 then opcode c8 AND 0xF0FF
      else opcode c8 AND 0xF000)"

subsection \<open>Instruction handlers\<close>

text \<open>Clears the display.\<close>

definition op00E0 :: opcodeHandler where
  "op00E0 c8 = Inr (c8\<lparr>display := blankDisplay\<rparr>)"

text \<open>
  Return: the stack pointer is decremented (an 8-bit subtraction, wrapping at 0) and the
  call stack is read at the new stack pointer.
\<close>

definition op00EE :: opcodeHandler where
  "op00EE c8 =
     (let sp = stackPointer c8 - 1 in
      if unat sp < 16
      then Inr (c8\<lparr>stackPointer := sp, programCounter := callStack c8 (unat sp)\<rparr>)
      else Inl (IndexOutOfRange (unat sp) 16))"

definition op1NNN :: opcodeHandler where
  "op1NNN c8 = Inr (c8\<lparr>programCounter := opNNN c8\<rparr>)"

text \<open>
  Call: the program counter is stored in the call stack at the current stack pointer,
  then the stack pointer is incremented and the program counter set to NNN.
\<close>

definition op2NNN :: opcodeHandler where
  "op2NNN c8 =
     (let address = opNNN c8; sp = stackPointer c8 in
      if unat sp < 16
      then Inr (c8\<lparr>callStack := (callStack c8)(unat sp := programCounter c8),
                    stackPointer := sp + 1,
                    programCounter := address\<rparr>)
      else Inl (IndexOutOfRange (unat sp) 16))"

definition skipNext :: "chip8 \<Rightarrow> chip8" where
  "skipNext c8 = c8\<lparr>programCounter := programCounter c8 + 2\<rparr>"

definition op3XKK :: opcodeHandler where
  "op3XKK c8 = Inr (if registers c8 (opX c8) = opKK c8 then skipNext c8 else c8)"

definition op4XKK :: opcodeHandler where
  "op4XKK c8 = Inr (if registers c8 (opX c8) \<noteq> opKK c8 then skipNext c8 else c8)"

definition op5XY0 :: opcodeHandler where
  "op5XY0 c8 =
     Inr (if registers c8 (opX c8) = registers c8 (opY c8) then skipNext c8 else c8)"

definition setVX :: "chip8 \<Rightarrow> u8 \<Rightarrow> chip8" where
  "setVX c8 v = c8\<lparr>registers := (registers c8)(opX c8 := v)\<rparr>"

definition op6XKK :: opcodeHandler where
  "op6XKK c8 = Inr (setVX c8 (opKK c8))"

definition op7XKK :: opcodeHandler where
  "op7XKK c8 = Inr (setVX c8 (registers c8 (opX c8) + opKK c8))"

definition op8XY0 :: opcodeHandler where
  "op8XY0 c8 = Inr (setVX c8 (registers c8 (opY c8)))"

definition op8XY1 :: opcodeHandler where
  "op8XY1 c8 = Inr (setVX c8 (registers c8 (opX c8) OR registers c8 (opY c8)))"

definition op8XY2 :: opcodeHandler where
  "op8XY2 c8 = Inr (setVX c8 (registers c8 (opX c8) AND registers c8 (opY c8)))"

definition op8XY3 :: opcodeHandler where
  "op8XY3 c8 = Inr (setVX c8 (registers c8 (opX c8) XOR registers c8 (opY c8)))"

definition op8XY4 :: opcodeHandler where
  "op8XY4 c8 =
     (let result = (ucast (registers c8 (opX c8)) :: u16) + ucast (registers c8 (opY c8));
          c1 = setVF c8 (if result > 255 then 1 else 0)
      in Inr (setVX c1 (ucast (result AND 0xFF))))"

definition op8XY5 :: opcodeHandler where
  "op8XY5 c8 =
     (let c1 = setVF c8 (if registers c8 (opX c8) > registers c8 (opY c8) then 1 else 0)
      in Inr (setVX c1 (registers c1 (opX c1) - registers c1 (opY c1))))"

definition op8XY6 :: opcodeHandler where
  "op8XY6 c8 =
     (let c1 = setVF c8 (registers c8 (opX c8) AND 0x1)
      in Inr (setVX c1 (drop_bit 1 (registers c1 (opX c1)))))"

definition op8XY7 :: opcodeHandler where
  "op8XY7 c8 =
     (let c1 = setVF c8 (if registers c8 (opY c8) > registers c8 (opX c8) then 1 else 0)
      in Inr (setVX c1 (registers c1 (opY c1) - registers c1 (opX c1))))"

definition op8XYE :: opcodeHandler where
  "op8XYE c8 =
     (let c1 = setVF c8 (drop_bit 7 (registers c8 (opX c8) AND 0x80))
      in Inr (setVX c1 (push_bit 1 (registers c1 (opX c1)))))"

definition op9XY0 :: opcodeHandler where
  "op9XY0 c8 =
     Inr (if registers c8 (opX c8) \<noteq> registers c8 (opY c8) then skipNext c8 else c8)"

definition opANNN :: opcodeHandler where
  "opANNN c8 = Inr (c8\<lparr>indexRegister := opNNN c8\<rparr>)"

definition opBNNN :: opcodeHandler where
  "opBNNN c8 = Inr (c8\<lparr>programCounter := ucast (registers c8 0) + opNNN c8\<rparr>)"

text \<open>The byte \<^verbatim>\<open>uint8(rand.Intn(256))\<close> is an input of the model.\<close>

definition opCXKK :: "u8 \<Rightarrow> opcodeHandler" where
  "opCXKK rnd c8 = Inr (setVX c8 (rnd AND opKK c8))"

text \<open>
  Draw. One lit sprite bit: the collision check on the addressed cell, then the cell is
  inverted. The coordinate sums are 8-bit additions reduced modulo the display size.
\<close>

definition drawPixel :: "u8 \<Rightarrow> u8 \<Rightarrow> u16 \<Rightarrow> u16 \<Rightarrow> chip8 \<Rightarrow> chip8" where
  "drawPixel xPos yPos j i c8 =
     (let row = unat ((yPos + ucast j) mod of_nat displayHeight);
          col = unat ((xPos + ucast i) mod of_nat displayWidth);
          c1 = (if display c8 row col then setVF c8 1 else c8)
      in c1\<lparr>display := (display c1)(row := (display c1 row)(col := \<not> display c1 row col))\<rparr>)"

function drawBits :: "u8 \<Rightarrow> u8 \<Rightarrow> u8 \<Rightarrow> u16 \<Rightarrow> u16 \<Rightarrow> chip8 \<Rightarrow> chip8" where
  "drawBits pixel xPos yPos j i c8 =
     (if i < 8
      then drawBits pixel xPos yPos j (i + 1)
             (if pixel AND drop_bit (unat i) 0x80 \<noteq> 0 then drawPixel xPos yPos j i c8 else c8)
      else c8)"
  by pat_completeness auto
termination
  by (relation "measure (\<lambda>(pixel, xPos, yPos, j, i, c8). 8 - unat i)")
     (auto simp: word_less_nat_alt unat_word_ariths)

function drawRows :: "u8 \<Rightarrow> u8 \<Rightarrow> u16 \<Rightarrow> u16 \<Rightarrow> chip8 \<Rightarrow> error + chip8" where
  "drawRows xPos yPos height j c8 =
     (if j < height
      then (case readMemory c8 (indexRegister c8 + j) of
              Inl e \<Rightarrow> Inl e
            | Inr pixel \<Rightarrow> drawRows xPos yPos height (j + 1) (drawBits pixel xPos yPos j 0 c8))
      else Inr c8)"
  by pat_completeness auto
termination
proof (relation "measure (\<lambda>(xPos, yPos, height, j, c8). unat height - unat j)", goal_cases)
  case 1
  show ?case by simp
next
  case (2 xPos yPos height j c8 pixel)
  have "unat height < 65536"
    using unsigned_less [of height, where ?'a = nat] by simp
  moreover have "unat j < unat height"
    using 2 by (simp add: word_less_nat_alt)
  ultimately have "unat (j + 1) = Suc (unat j)"
    by (simp add: unat_word_ariths)
  with \<open>unat j < unat height\<close> show ?case
    by simp
qed

definition opDXYN :: opcodeHandler where
  "opDXYN c8 =
     (let xPos = registers c8 (opX c8);
          yPos = registers c8 (opY c8);
          height = opcode c8 AND 0x000F
      in drawRows xPos yPos height 0 (setVF c8 0))"

text \<open>
  Bit \<open>i\<close>, counted from the most significant, of sprite row \<open>j\<close>: the row is the
  memory byte at the index register plus \<open>j\<close>.
\<close>

definition spriteBit :: "chip8 \<Rightarrow> nat \<Rightarrow> nat \<Rightarrow> bool" where
  "spriteBit c8 j i = bit (memory c8 (unat (indexRegister c8) + j)) (7 - i)"

text \<open>
  The skip-if-key instructions index the key pad with the whole byte held in VX.
\<close>

definition readKeyPad :: "chip8 \<Rightarrow> u8 \<Rightarrow> error + u8" where
  "readKeyPad c8 key =
     (if unat key < 16 then Inr (keyPad c8 (unat key))
      else Inl (IndexOutOfRange (unat key) 16))"

definition opEX9E :: opcodeHandler where
  "opEX9E c8 =
     (let key = registers c8 (opX c8) in
      case readKeyPad c8 key of
        Inl e \<Rightarrow> Inl e
      | Inr k \<Rightarrow> Inr (if k = 0x1 then skipNext c8 else c8))"

definition opEXA1 :: opcodeHandler where
  "opEXA1 c8 =
     (let key = registers c8 (opX c8) in
      case readKeyPad c8 key of
        Inl e \<Rightarrow> Inl e
      | Inr k \<Rightarrow> Inr (if k = 0x0 then skipNext c8 else c8))"

definition opFX07 :: opcodeHandler where
  "opFX07 c8 = Inr (setVX c8 (delayTimer c8))"

text \<open>
  Wait for a key: the loop \<^verbatim>\<open>for key := range c8.keyPad\<close> visits the indices 0 to 15 in
  order; the loop state is the machine and the local \<^verbatim>\<open>pressed\<close>.
\<close>

definition waitKeyStep :: "nat \<Rightarrow> chip8 \<times> bool \<Rightarrow> chip8 \<times> bool" where
  "waitKeyStep key st =
     (let c8 = fst st in
      if keyPad c8 key \<noteq> 0 then (setVX c8 (of_nat key), True) else st)"

definition opFX0A :: opcodeHandler where
  "opFX0A c8 =
     (let st = fold waitKeyStep [0..<16] (c8, False);
          c1 = fst st;
          pressed = snd st
      in Inr (if \<not> pressed then c1\<lparr>programCounter := programCounter c1 - 2\<rparr> else c1))"

definition opFX15 :: opcodeHandler where
  "opFX15 c8 = Inr (c8\<lparr>delayTimer := registers c8 (opX c8)\<rparr>)"

definition opFX18 :: opcodeHandler where
  "opFX18 c8 = Inr (c8\<lparr>soundTimer := registers c8 (opX c8)\<rparr>)"

definition opFX1E :: opcodeHandler where
  "opFX1E c8 = Inr (c8\<lparr>indexRegister := indexRegister c8 + ucast (registers c8 (opX c8))\<rparr>)"

text \<open>
  Font sprite address: the product \<^verbatim>\<open>5 * digit\<close> is a \<^verbatim>\<open>uint8\<close> product, widened to
  \<^verbatim>\<open>int\<close> only afterwards.
\<close>

definition opFX29 :: opcodeHandler where
  "opFX29 c8 =
     (let digit = registers c8 (opX c8) in
      Inr (c8\<lparr>indexRegister := of_nat (fontStartAddress + unat (5 * digit))\<rparr>))"

definition opFX33 :: opcodeHandler where
  "opFX33 c8 =
     (let v = registers c8 (opX c8) in
      case writeMemory c8 (indexRegister c8 + 2) (v mod 10) of
        Inl e \<Rightarrow> Inl e
      | Inr c1 \<Rightarrow>
          (let v1 = v div 10 in
           case writeMemory c1 (indexRegister c1 + 1) (v1 mod 10) of
             Inl e \<Rightarrow> Inl e
           | Inr c2 \<Rightarrow>
               (let v2 = v1 div 10 in writeMemory c2 (indexRegister c2) (v2 mod 10))))"

text \<open>
  Register dump and load. The loop variable is a Go \<^verbatim>\<open>int\<close>; the loop condition compares
  its low byte with X, and \<^verbatim>\<open>registers[i]\<close> is bounds-checked, which bounds the loop.
\<close>

function dumpRegisters :: "u8 \<Rightarrow> int \<Rightarrow> chip8 \<Rightarrow> error + chip8" where
  "dumpRegisters vx i c8 =
     (if (word_of_int i :: u8) \<le> vx
      then (if 0 \<le> i \<and> i < 16
            then (case writeMemory c8 (indexRegister c8 + word_of_int i) (registers c8 (nat i)) of
                    Inl e \<Rightarrow> Inl e
                  | Inr c1 \<Rightarrow> dumpRegisters vx (i + 1) c1)
            else Inl (IndexOutOfRange (nat i) 16))
      else Inr c8)"
  by pat_completeness auto
termination
  by (relation "measure (\<lambda>(vx, i, c8). nat (16 - i))") auto

function loadRegisters :: "u8 \<Rightarrow> int \<Rightarrow> chip8 \<Rightarrow> error + chip8" where
  "loadRegisters vx i c8 =
     (if (word_of_int i :: u8) \<le> vx
      then (if 0 \<le> i \<and> i < 16
            then (case readMemory c8 (indexRegister c8 + word_of_int i) of
                    Inl e \<Rightarrow> Inl e
                  | Inr v \<Rightarrow>
                      loadRegisters vx (i + 1) (c8\<lparr>registers := (registers c8)(nat i := v)\<rparr>))
            else Inl (IndexOutOfRange (nat i) 16))
      else Inr c8)"
  by pat_completeness auto
termination
  by (relation "measure (\<lambda>(vx, i, c8). nat (16 - i))") auto

definition opFX55 :: opcodeHandler where
  "opFX55 c8 =
     (let vx = (ucast (drop_bit 8 (opcode c8 AND 0x0F00)) :: u8) in
      case dumpRegisters vx 0 c8 of
        Inl e \<Rightarrow> Inl e
      | Inr c1 \<Rightarrow> Inr (c1\<lparr>indexRegister := drop_bit 8 (opcode c1 AND 0x0F00) + 1\<rparr>))"

definition opFX65 :: opcodeHandler where
  "opFX65 c8 =
     (let vx = (ucast (drop_bit 8 (opcode c8 AND 0x0F00)) :: u8) in
      case loadRegisters vx 0 c8 of
        Inl e \<Rightarrow> Inl e
      | Inr c1 \<Rightarrow> Inr (c1\<lparr>indexRegister := drop_bit 8 (opcode c1 AND 0x0F00) + 1\<rparr>))"

subsection \<open>Dispatch and the CPU cycle\<close>

definition dispatchTable :: "u8 \<Rightarrow> u16 \<rightharpoonup> opcodeHandler" where
  "dispatchTable rnd = map_of
    [(0x00E0, op00E0), (0x00EE, op00EE), (0x1000, op1NNN), (0x2000, op2NNN),
     (0x3000, op3XKK), (0x4000, op4XKK), (0x5000, op5XY0), (0x6000, op6XKK),
     (0x7000, op7XKK), (0x8000, op8XY0), (0x8001, op8XY1), (0x8002, op8XY2),
     (0x8003, op8XY3), (0x8004, op8XY4), (0x8005, op8XY5), (0x8006, op8XY6),
     (0x8007, op8XY7), (0x800E, op8XYE), (0x9000, op9XY0), (0xA000, opANNN),
     (0xB000, opBNNN), (0xC000, opCXKK rnd), (0xD000, opDXYN), (0xE09E, opEX9E),
     (0xE0A1, opEXA1), (0xF007, opFX07), (0xF00A, opFX0A), (0xF015, opFX15),
     (0xF018, opFX18), (0xF01E, opFX1E), (0xF029, opFX29), (0xF033, opFX33),
     (0xF055, opFX55), (0xF065, opFX65)]"

text \<open>
  One CPU cycle: fetch, advance the program counter by 2, decode, and run the handler
  the dispatch table holds for the key; with no handler the opcode is reported as
  invalid and the state stays as it is after the fetch.
\<close>

definition cycle :: "u8 \<Rightarrow> chip8 \<Rightarrow> error + chip8" where
  "cycle rnd c8 =
     (case fetch c8 of
        Inl e \<Rightarrow> Inl e
      | Inr c1 \<Rightarrow>
          (let c2 = c1\<lparr>programCounter := programCounter c1 + 2\<rparr> in
           case dispatchTable rnd (decodeOpcode c2) of
             Some handler \<Rightarrow> handler c2
           | None \<Rightarrow> Inr c2))"

subsection \<open>Loading a ROM, initialisation and the run loop\<close>

text \<open>
  Go's \<^verbatim>\<open>copy(arr[start:], src)\<close> on an array of length \<open>len\<close>: it copies as many
  elements as the shorter of the two slices holds.
\<close>

definition copyInto :: "(nat \<Rightarrow> 'a) \<Rightarrow> nat \<Rightarrow> nat \<Rightarrow> 'a list \<Rightarrow> nat \<Rightarrow> 'a" where
  "copyInto arr start len src a =
     (if start \<le> a \<and> a < start + min (len - start) (length src)
      then src ! (a - start) else arr a)"

text \<open>
  \<^verbatim>\<open>loadRom\<close>: the result of \<^verbatim>\<open>os.ReadFile\<close> is an input of the model (\<open>None\<close> when
  the file cannot be read). The returned pair is the error value (\<open>None\<close> for
  \<^verbatim>\<open>nil\<close>) and the machine as the call leaves it.
\<close>

definition loadRom :: "chip8 \<Rightarrow> u8 list option \<Rightarrow> error option \<times> chip8" where
  "loadRom c8 file =
     (case file of
        None \<Rightarrow> (Some CouldNotOpenRom, c8)
      | Some data \<Rightarrow>
          if length data > memorySize - startAddress
          then (Some (RomTooLarge (length data) (memorySize - startAddress)), c8)
          else (None, c8\<lparr>memory := copyInto (memory c8) startAddress memorySize data\<rparr>))"

definition SetColorProfile :: "chip8 \<Rightarrow> string \<Rightarrow> chip8" where
  "SetColorProfile c8 profileName =
     (case profiles profileName of
        Some profile \<Rightarrow> c8\<lparr>colorProfile := profile\<rparr>
      | None \<Rightarrow>
          c8\<lparr>colorProfile :=
               (case profiles ''black-white'' of
                  Some profile \<Rightarrow> profile
                | None \<Rightarrow> \<lparr>foreground = (0, 0, 0, 0), background = (0, 0, 0, 0)\<rparr>)\<rparr>)"

definition init :: "chip8 \<Rightarrow> 32 word \<Rightarrow> string \<Rightarrow> chip8" where
  "init c8 scale profileName =
     (let c1 = c8\<lparr>programCounter := of_nat startAddress, scaleFactor := scale\<rparr>;
          c2 = SetColorProfile c1 profileName;
          c3 = c2\<lparr>memory := copyInto (memory c2) fontStartAddress memorySize fontSet\<rparr>
      in c3\<lparr>running := True\<rparr>)"

definition updateInput :: "chip8 \<Rightarrow> (nat \<Rightarrow> u8) \<Rightarrow> bool \<Rightarrow> chip8" where
  "updateInput c8 keys quit =
     (let c1 = c8\<lparr>keyPad := keys\<rparr> in if quit then c1\<lparr>running := False\<rparr> else c1)"

text \<open>
  The run loop selects among four tickers. The sequence of ticker firings, with what the
  input poll and the random generator return at each clock tick, is an input of the
  model. The loop ends when the machine is no longer running (\<^verbatim>\<open>Run\<close> returns
  \<^verbatim>\<open>nil\<close>) or when a cycle panics; with the machine still running and no tick left, the
  loop is waiting in its \<^verbatim>\<open>select\<close>.
\<close>

datatype tick = SoundTick | DelayTick | VideoTick | ClockTick "nat \<Rightarrow> u8" bool u8

datatype outcome = Returned "error option" | Panicked error | Waiting

fun runLoop :: "chip8 \<Rightarrow> tick list \<Rightarrow> outcome \<times> chip8" where
  "runLoop c8 [] = (if running c8 then (Waiting, c8) else (Returned None, c8))"
| "runLoop c8 (t # ts) =
     (if \<not> running c8 then (Returned None, c8)
      else (case t of
              SoundTick \<Rightarrow>
                runLoop (if soundTimer c8 > 0 then c8\<lparr>soundTimer := soundTimer c8 - 1\<rparr> else c8) ts
            | DelayTick \<Rightarrow>
                runLoop (if delayTimer c8 > 0 then c8\<lparr>delayTimer := delayTimer c8 - 1\<rparr> else c8) ts
            | VideoTick \<Rightarrow> runLoop c8 ts
            | ClockTick keys quit rnd \<Rightarrow>
                (let c1 = updateInput c8 keys quit in
                 case cycle rnd c1 of
                   Inl e \<Rightarrow> (Panicked e, c1)
                 | Inr c2 \<Rightarrow> runLoop c2 ts)))"

definition Run :: "chip8 \<Rightarrow> u8 list option \<Rightarrow> 32 word \<Rightarrow> string \<Rightarrow> tick list \<Rightarrow> outcome \<times> chip8" where
  "Run c8 file scale profileName ticks =
     (case loadRom c8 file of
        (Some err, c1) \<Rightarrow> (Returned (Some (FailedToLoadRom err)), c1)
      | (None, c1) \<Rightarrow> runLoop (init c1 scale profileName) ticks)"

subsection \<open>Concrete machine states\<close>

text \<open>Machine states at which the properties below are evaluated.\<close>

definition clsState :: chip8 where
  "clsState =
     zeroChip8\<lparr>programCounter := 0x200, memory := zeroArray(0x201 := 0xE0),
                display := blankDisplay(3 := (blankDisplay 3)(5 := True))\<rparr>"

definition callState :: chip8 where
  "callState = zeroChip8\<lparr>programCounter := 0x202, opcode := 0x2300\<rparr>"

definition callResult :: chip8 where
  "callResult =
     callState\<lparr>callStack := zeroArray(0 := 0x202), stackPointer := 1, programCounter := 0x300\<rparr>"

definition returnState :: chip8 where
  "returnState = zeroChip8\<lparr>callStack := zeroArray(0 := 0x202), stackPointer := 1\<rparr>"

definition fontState :: "u8 \<Rightarrow> chip8" where
  "fontState v = zeroChip8\<lparr>opcode := 0xF029, registers := zeroArray(0 := v)\<rparr>"

definition keyState :: "u16 \<Rightarrow> u8 \<Rightarrow> chip8" where
  "keyState opc v = zeroChip8\<lparr>opcode := opc, registers := zeroArray(1 := v)\<rparr>"

definition roundState :: chip8 where
  "roundState =
     zeroChip8\<lparr>programCounter := 0x200, stackPointer := 3,
                memory := zeroArray(0x200 := 0x23, 0x301 := 0xEE)\<rparr>"

definition waitState :: "(nat \<Rightarrow> u8) \<Rightarrow> chip8" where
  "waitState keys =
     zeroChip8\<lparr>programCounter := 0x200, memory := zeroArray(0x200 := 0xF4, 0x201 := 0x0A),
                registers := zeroArray(4 := 0x77), keyPad := keys\<rparr>"

definition bigRom :: "u8 list" where
  "bigRom = replicate 3585 0xFF"

definition smallRom :: "u8 list" where
  "smallRom = [0xA2, 0xB4, 0x23, 0xE6, 0x00, 0xEE, 0x37, 0x23]"

definition dumpState :: "u16 \<Rightarrow> chip8" where
  "dumpState i =
     zeroChip8\<lparr>indexRegister := i, opcode := 0xF155,
                registers := zeroArray(0 := 0x11, 1 := 0x22, 2 := 0x33),
                memory := zeroArray(0x300 := 0xAA, 0x301 := 0xBB, 0x302 := 0xCC)\<rparr>"

definition drawState :: "u16 \<Rightarrow> (nat \<Rightarrow> nat \<Rightarrow> bool) \<Rightarrow> chip8" where
  "drawState i pixels =
     zeroChip8\<lparr>indexRegister := i, opcode := 0xD011, memory := zeroArray(0x300 := 0xFF),
                display := pixels\<rparr>"

definition onePixel :: "nat \<Rightarrow> nat \<Rightarrow> bool" where
  "onePixel r c = (r = 0 \<and> c = 3)"

section \<open>Properties\<close>

subsection \<open>Decoder\<close>

lemma f000_eq: "(0xF000 :: u16) = push_bit 12 (mask 4)"
  by (simp add: mask_eq_exp_minus_1 push_bit_eq_mult)

lemma and_f000: "(w :: u16) AND 0xF000 = push_bit 12 (drop_bit 12 w)"
  unfolding f000_eq by (rule bit_word_eqI) (auto simp: bit_simps)

lemma high_nibble_bound: "unat (drop_bit 12 (w :: u16)) < 16"
proof -
  have "unat w < 2 ^ 16"
    using unsigned_less [of w, where ?'a = nat] by simp
  then have "drop_bit 12 (unat w) < 16"
    by (simp add: drop_bit_eq_div less_mult_imp_div_less)
  then show ?thesis
    by (simp only: unat_drop_bit_eq)
qed

lemma unat_push12: "unat (h :: u16) < 16 \<Longrightarrow> unat (push_bit 12 h) = unat h * 4096"
  by (simp add: push_bit_eq_mult unat_word_ariths)

lemma family_iff:
  assumes "unat (k :: u16) < 16"
  shows "(w AND 0xF000 = push_bit 12 k) = (drop_bit 12 w = k)"
proof -
  have "(push_bit 12 (drop_bit 12 w) = push_bit 12 k)
      = (unat (push_bit 12 (drop_bit 12 w)) = unat (push_bit 12 k))"
    by (simp add: word_unat_eq_iff)
  also have "\<dots> = (unat (drop_bit 12 w) = unat k)"
    using assms high_nibble_bound [of w] by (simp add: unat_push12)
  also have "\<dots> = (drop_bit 12 w = k)"
    by (simp add: word_unat_eq_iff)
  finally show ?thesis
    by (simp add: and_f000)
qed

lemma family_cases:
  "((w :: u16) AND 0xF000 = 0x0000) = (drop_bit 12 w = 0x0)"
  "(w AND 0xF000 = 0x8000) = (drop_bit 12 w = 0x8)"
  "(w AND 0xF000 = 0xE000) = (drop_bit 12 w = 0xE)"
  "(w AND 0xF000 = 0xF000) = (drop_bit 12 w = 0xF)"
  using family_iff [of 0 w] family_iff [of 8 w] family_iff [of "0xE" w] family_iff [of "0xF" w]
  by simp_all

text \<open>
  C6. For every 16-bit opcode the dispatch key is the opcode under a mask chosen by the
  high nibble (the opcode shifted right by 12): 0x00FF for nibble 0x0, 0xF00F for nibble
  0x8, 0xF0FF for nibbles 0xE and 0xF, and 0xF000 for every other nibble.
\<close>

theorem decodeOpcode_family_mask:
  "decodeOpcode c8 =
     (let nibble = drop_bit 12 (opcode c8) in
      if nibble = 0x0 then opcode c8 AND 0x00FF
      else if nibble = 0x8 then opcode c8 AND 0xF00F
      else if nibble = 0xE \<or> nibble = 0xF then opcode c8 AND 0xF0FF
      else opcode c8 AND 0xF000)"
  by (simp add: decodeOpcode_def Let_def family_cases)

theorem decodeOpcode_family_mask_witness:
  "decodeOpcode (zeroChip8\<lparr>opcode := 0x00EE\<rparr>) = 0x00EE
   \<and> decodeOpcode (zeroChip8\<lparr>opcode := 0x8AB4\<rparr>) = 0x8004
   \<and> decodeOpcode (zeroChip8\<lparr>opcode := 0xE19E\<rparr>) = 0xE09E
   \<and> decodeOpcode (zeroChip8\<lparr>opcode := 0xF765\<rparr>) = 0xF065
   \<and> decodeOpcode (zeroChip8\<lparr>opcode := 0xD123\<rparr>) = 0xD000"
  using decodeOpcode_family_mask [of "zeroChip8\<lparr>opcode := 0x00EE\<rparr>"]
    decodeOpcode_family_mask [of "zeroChip8\<lparr>opcode := 0x8AB4\<rparr>"]
    decodeOpcode_family_mask [of "zeroChip8\<lparr>opcode := 0xE19E\<rparr>"]
    decodeOpcode_family_mask [of "zeroChip8\<lparr>opcode := 0xF765\<rparr>"]
    decodeOpcode_family_mask [of "zeroChip8\<lparr>opcode := 0xD123\<rparr>"]
  by (simp add: drop_bit_eq_div)

subsection \<open>Clear screen\<close>

text \<open>
  C10. For every machine state at which the fetch reads the opcode 00E0, the cycle ends
  in the state that differs from the initial one only in the fetched opcode, the program
  counter (advanced by the 2 of the fetch step) and the frame buffer, of which every cell
  is false: registers, memory, index register, call stack, stack pointer, both timers
  and the key pad are those of the initial state.
\<close>

theorem cycle_clear_screen:
  assumes "fetch c8 = Inr (c8\<lparr>opcode := 0x00E0\<rparr>)"
  shows "cycle rnd c8 =
           Inr (c8\<lparr>opcode := 0x00E0, programCounter := programCounter c8 + 2,
                    display := blankDisplay\<rparr>)
         \<and> blankDisplay row col = False"
  using assms
  by (simp add: cycle_def Let_def decodeOpcode_def dispatchTable_def op00E0_def blankDisplay_def)

theorem cycle_clear_screen_witness:
  "fetch clsState = Inr (clsState\<lparr>opcode := 0x00E0\<rparr>)
   \<and> cycle 0 clsState =
       Inr (clsState\<lparr>opcode := 0x00E0, programCounter := 0x202, display := blankDisplay\<rparr>)
   \<and> display clsState 3 5"
proof -
  have f: "fetch clsState = Inr (clsState\<lparr>opcode := 0x00E0\<rparr>)"
    by (simp add: fetch_def readMemory_def memorySize_def clsState_def zeroChip8_def zeroArray_def)
  have "programCounter clsState + 2 = 0x202" "display clsState 3 5"
    by (simp_all add: clsState_def zeroChip8_def)
  with f cycle_clear_screen [OF f, of 0] show ?thesis
    by simp
qed

subsection \<open>Call stack\<close>

text \<open>
  C4, as the claim states it, fails: with stack pointer 0 the call stores the return
  address 0x202 at position 0, the position of the stack pointer before the increment,
  and position 1, where the stack pointer then stands, does not hold it.
\<close>

theorem call_push_counterexample:
  "op2NNN callState = Inr callResult
   \<and> stackPointer callState = 0
   \<and> stackPointer callResult = 1
   \<and> callStack callResult (unat (stackPointer callResult)) \<noteq> programCounter callState
   \<and> callStack callResult (unat (stackPointer callState)) = programCounter callState"
  by (simp add: op2NNN_def opNNN_def callResult_def callState_def zeroChip8_def zeroArray_def)

text \<open>
  C4, amended. For every Call with stack pointer s < 16, the push writes the return
  address at position s, leaves the other positions as they are, and then increments the
  stack pointer to s + 1; for every Return with stack pointer 0 < s \<le> 16, the pop
  decrements the stack pointer to s - 1 and then reads the return address at position
  s - 1.
\<close>

theorem call_push_return_pop:
  "(unat (stackPointer c8) < 16 \<longrightarrow>
      (\<exists>c1. op2NNN c8 = Inr c1
         \<and> callStack c1 = (callStack c8)(unat (stackPointer c8) := programCounter c8)
         \<and> unat (stackPointer c1) = unat (stackPointer c8) + 1
         \<and> programCounter c1 = opNNN c8))
   \<and> (0 < unat (stackPointer c8) \<and> unat (stackPointer c8) \<le> 16 \<longrightarrow>
      (\<exists>c1. op00EE c8 = Inr c1
         \<and> unat (stackPointer c1) = unat (stackPointer c8) - 1
         \<and> programCounter c1 = callStack c8 (unat (stackPointer c8) - 1)
         \<and> callStack c1 = callStack c8))"
proof -
  have inc: "unat (stackPointer c8 + 1) = unat (stackPointer c8) + 1"
    if "unat (stackPointer c8) < 16"
    using that by (simp add: unat_word_ariths)
  have dec: "unat (stackPointer c8 - 1) = unat (stackPointer c8) - 1"
    if "0 < unat (stackPointer c8)"
    using that by (simp add: unat_sub word_le_nat_alt)
  show ?thesis
    using inc dec by (auto simp: op2NNN_def op00EE_def Let_def)
qed

theorem call_push_return_pop_witness:
  "unat (stackPointer callState) < 16
   \<and> (\<exists>c1. op2NNN callState = Inr c1 \<and> callStack c1 0 = 0x202 \<and> unat (stackPointer c1) = 1)
   \<and> 0 < unat (stackPointer returnState) \<and> unat (stackPointer returnState) \<le> 16
   \<and> (\<exists>c1. op00EE returnState = Inr c1 \<and> unat (stackPointer c1) = 0
         \<and> programCounter c1 = 0x202)"
proof -
  have c: "unat (stackPointer callState) = 0" "programCounter callState = 0x202"
    by (simp_all add: callState_def zeroChip8_def)
  have r: "unat (stackPointer returnState) = 1" "callStack returnState 0 = 0x202"
    by (simp_all add: returnState_def zeroChip8_def)
  from call_push_return_pop [of callState] c
  have 1: "\<exists>c1. op2NNN callState = Inr c1 \<and> callStack c1 0 = 0x202 \<and> unat (stackPointer c1) = 1"
    by auto
  from call_push_return_pop [of returnState] r
  have 2: "\<exists>c1. op00EE returnState = Inr c1 \<and> unat (stackPointer c1) = 0
         \<and> programCounter c1 = 0x202"
    by auto
  from c r 1 2 show ?thesis
    by simp
qed

subsection \<open>Font sprite address\<close>

text \<open>
  C5, as the claim states it, fails: with VX = 0xFF the index register becomes 0x14B
  (0x050 + 251), not 0x050 + 1275.
\<close>

theorem font_sprite_counterexample:
  "opFX29 (fontState 0xFF) = Inr (fontState 0xFF\<lparr>indexRegister := 0x14B\<rparr>)
   \<and> registers (fontState 0xFF) (opX (fontState 0xFF)) = 0xFF
   \<and> (0x14B :: u16) \<noteq> 0x050 + 1275"
  by (simp add: opFX29_def fontState_def zeroChip8_def zeroArray_def opX_def fontStartAddress_def)

text \<open>
  C5, amended. For every 8-bit value v held in VX, FX29 changes the index register only,
  and sets it to 0x050 plus the 8-bit product of 5 and v, that is 0x050 + (5 \<times> v) mod 256;
  this is 0x050 + 5 \<times> v whenever v \<le> 51, in particular for every font digit 0 to 0xF.
\<close>

theorem font_sprite_address:
  "\<exists>c1. opFX29 c8 = Inr c1
     \<and> c1 = c8\<lparr>indexRegister := indexRegister c1\<rparr>
     \<and> unat (indexRegister c1) = 0x050 + (5 * unat (registers c8 (opX c8))) mod 256
     \<and> (unat (registers c8 (opX c8)) \<le> 51 \<longrightarrow>
          unat (indexRegister c1) = 0x050 + 5 * unat (registers c8 (opX c8)))"
proof -
  let ?v = "unat (registers c8 (opX c8))"
  let ?p = "5 * registers c8 (opX c8)"
  define idx :: u16 where "idx = of_nat (fontStartAddress + unat ?p)"
  have res: "opFX29 c8 = Inr (c8\<lparr>indexRegister := idx\<rparr>)"
    by (simp only: opFX29_def Let_def idx_def)
  have lt: "unat ?p < 256"
    using unsigned_less [of ?p, where ?'a = nat] by simp
  have m: "unat ?p = (5 * ?v) mod 256"
    by (simp add: unat_word_ariths)
  have "unat idx = (0x50 + unat ?p) mod 65536"
    unfolding idx_def fontStartAddress_def by (simp only: unat_of_nat) simp
  with lt have "unat idx = 0x50 + unat ?p"
    by simp
  with m have u: "unat idx = 0x050 + (5 * ?v) mod 256"
    by simp
  have "unat idx = 0x050 + 5 * ?v" if "?v \<le> 51"
    using that u by simp
  with res u show ?thesis
    by simp
qed

theorem font_sprite_address_witness:
  "unat (registers (fontState 0xA) (opX (fontState 0xA))) \<le> 51
   \<and> (\<exists>c1. opFX29 (fontState 0xA) = Inr c1 \<and> unat (indexRegister c1) = 0x082)"
proof -
  have "unat (registers (fontState 0xA) (opX (fontState 0xA))) = 10"
    by (simp add: fontState_def zeroChip8_def opX_def)
  with font_sprite_address [of "fontState 0xA"] show ?thesis
    by auto
qed

subsection \<open>Skip if key pressed, skip if key not pressed\<close>

text \<open>
  C9. EX9E and EXA1 index the key pad with the whole byte held in VX. For every state in
  which that byte is at most 0xF the access is in bounds and the instruction skips or not
  by the key's state; for every state in which it is greater than 0xF the access is out of
  bounds and the instruction panics; and such a state exists.
\<close>

theorem key_skip_index_bounds:
  "(unat (registers c8 (opX c8)) \<le> 0xF \<longrightarrow>
      opEX9E c8 = Inr (if keyPad c8 (unat (registers c8 (opX c8))) = 0x1 then skipNext c8 else c8)
    \<and> opEXA1 c8 = Inr (if keyPad c8 (unat (registers c8 (opX c8))) = 0x0 then skipNext c8 else c8))
   \<and> (0xF < unat (registers c8 (opX c8)) \<longrightarrow>
      opEX9E c8 = Inl (IndexOutOfRange (unat (registers c8 (opX c8))) 16)
    \<and> opEXA1 c8 = Inl (IndexOutOfRange (unat (registers c8 (opX c8))) 16))
   \<and> (\<exists>s. 0xF < unat (registers s (opX s)) \<and> opX s = 1
        \<and> opEX9E s = Inl (IndexOutOfRange (unat (registers s 1)) 16)
        \<and> opEXA1 s = Inl (IndexOutOfRange (unat (registers s 1)) 16))"
proof -
  have "0xF < unat (registers (keyState 0xE19E 0x10) (opX (keyState 0xE19E 0x10)))"
    "opX (keyState 0xE19E 0x10) = 1"
    "opEX9E (keyState 0xE19E 0x10) =
       Inl (IndexOutOfRange (unat (registers (keyState 0xE19E 0x10) 1)) 16)"
    "opEXA1 (keyState 0xE19E 0x10) =
       Inl (IndexOutOfRange (unat (registers (keyState 0xE19E 0x10) 1)) 16)"
    by (simp_all add: keyState_def zeroChip8_def opX_def opEX9E_def opEXA1_def readKeyPad_def)
  then have "\<exists>s. 0xF < unat (registers s (opX s)) \<and> opX s = 1
        \<and> opEX9E s = Inl (IndexOutOfRange (unat (registers s 1)) 16)
        \<and> opEXA1 s = Inl (IndexOutOfRange (unat (registers s 1)) 16)"
    by blast
  then show ?thesis
    by (simp add: opEX9E_def opEXA1_def readKeyPad_def Let_def)
qed

theorem key_skip_index_bounds_witness:
  "unat (registers (keyState 0xE19E 0x3) (opX (keyState 0xE19E 0x3))) \<le> 0xF
   \<and> opEX9E (keyState 0xE19E 0x3) = Inr (keyState 0xE19E 0x3)
   \<and> opEXA1 (keyState 0xE19E 0x3) = Inr (skipNext (keyState 0xE19E 0x3))
   \<and> 0xF < unat (registers (keyState 0xE19E 0x10) (opX (keyState 0xE19E 0x10)))
   \<and> opEX9E (keyState 0xE19E 0x10) = Inl (IndexOutOfRange 16 16)
   \<and> opEXA1 (keyState 0xE19E 0x10) = Inl (IndexOutOfRange 16 16)"
proof -
  have x: "opX (keyState 0xE19E v) = 1" for v
    by (simp add: keyState_def zeroChip8_def opX_def)
  have r: "registers (keyState 0xE19E v) (opX (keyState 0xE19E v)) = v" for v
    unfolding x by (simp add: keyState_def zeroChip8_def)
  have k: "keyPad (keyState 0xE19E v) k = 0" for v k
    by (simp add: keyState_def zeroChip8_def zeroArray_def)
  have lo: "unat (registers (keyState 0xE19E 0x3) (opX (keyState 0xE19E 0x3))) \<le> 0xF"
    and hi: "0xF < unat (registers (keyState 0xE19E 0x10) (opX (keyState 0xE19E 0x10)))"
    unfolding r by simp_all
  from key_skip_index_bounds [of "keyState 0xE19E 0x3"] lo
  have 1: "opEX9E (keyState 0xE19E 0x3) = Inr (keyState 0xE19E 0x3)"
    "opEXA1 (keyState 0xE19E 0x3) = Inr (skipNext (keyState 0xE19E 0x3))"
    by (simp_all add: k)
  from key_skip_index_bounds [of "keyState 0xE19E 0x10"] hi
  have 2: "opEX9E (keyState 0xE19E 0x10) = Inl (IndexOutOfRange 16 16)"
    "opEXA1 (keyState 0xE19E 0x10) = Inl (IndexOutOfRange 16 16)"
    unfolding r by simp_all
  from lo hi 1 2 show ?thesis
    by blast
qed

subsection \<open>Call and return through the cycle\<close>

lemma fetch_Inr_iff:
  "fetch c8 = Inr c1 \<longleftrightarrow>
     unat (programCounter c8) < 4096 \<and> unat (programCounter c8 + 1) < 4096 \<and>
     c1 = c8\<lparr>opcode := push_bit 8 (ucast (memory c8 (unat (programCounter c8))))
                          OR ucast (memory c8 (unat (programCounter c8 + 1)))\<rparr>"
  by (auto simp: fetch_def readMemory_def memorySize_def)

lemma fetch_same_memory:
  assumes "fetch a = Inr (a\<lparr>opcode := w\<rparr>)"
    and "memory b = memory a" and "programCounter b = programCounter a"
  shows "fetch b = Inr (b\<lparr>opcode := w\<rparr>)"
proof -
  let ?e = "push_bit 8 (ucast (memory a (unat (programCounter a))))
              OR ucast (memory a (unat (programCounter a + 1))) :: u16"
  from assms(1) have b: "unat (programCounter a) < 4096" "unat (programCounter a + 1) < 4096"
    and e: "a\<lparr>opcode := w\<rparr> = a\<lparr>opcode := ?e\<rparr>"
    by (simp_all add: fetch_Inr_iff)
  from e have "opcode (a\<lparr>opcode := w\<rparr>) = opcode (a\<lparr>opcode := ?e\<rparr>)"
    by (rule arg_cong)
  then have "w = ?e" by simp
  with b assms(2,3) show ?thesis
    by (simp add: fetch_Inr_iff)
qed

lemma decode_call: "opcode c AND 0xF000 = 0x2000 \<Longrightarrow> decodeOpcode c = 0x2000"
  by (simp add: decodeOpcode_def)

lemma decode_return: "opcode c = 0x00EE \<Longrightarrow> decodeOpcode c = 0x00EE"
  by (simp add: decodeOpcode_def)

lemma dispatch_call: "dispatchTable rnd 0x2000 = Some op2NNN"
  by (simp add: dispatchTable_def)

lemma dispatch_return: "dispatchTable rnd 0x00EE = Some op00EE"
  by (simp add: dispatchTable_def)

text \<open>
  C3. For every machine state with stack pointer at most 15 whose memory holds a Call NNN
  at the program counter and a Return at NNN (the two fetch hypotheses), the cycle of the
  Call followed by the cycle of the Return both complete, the program counter ends at the
  address of the Call plus 2, and the stack pointer ends at its original value.
\<close>

theorem call_return_roundtrip:
  assumes sp: "unat (stackPointer c8) \<le> 15"
    and call: "fetch c8 = Inr (c8\<lparr>opcode := w\<rparr>)" "w AND 0xF000 = 0x2000"
    and ret: "fetch (c8\<lparr>programCounter := w AND 0x0FFF\<rparr>)
                = Inr (c8\<lparr>programCounter := w AND 0x0FFF, opcode := 0x00EE\<rparr>)"
  shows "\<exists>c1 c2. cycle r1 c8 = Inr c1 \<and> cycle r2 c1 = Inr c2
           \<and> programCounter c1 = w AND 0x0FFF
           \<and> programCounter c2 = programCounter c8 + 2
           \<and> stackPointer c2 = stackPointer c8"
proof -
  define c1 where "c1 = c8\<lparr>opcode := w, programCounter := w AND 0x0FFF,
     callStack := (callStack c8)(unat (stackPointer c8) := programCounter c8 + 2),
     stackPointer := stackPointer c8 + 1\<rparr>"
  have 1: "cycle r1 c8 = Inr c1"
    using sp call
    by (simp add: cycle_def Let_def decode_call dispatch_call op2NNN_def opNNN_def c1_def)
  have "fetch c1 = Inr (c1\<lparr>opcode := 0x00EE\<rparr>)"
    using ret by (rule fetch_same_memory [where a = "c8\<lparr>programCounter := w AND 0x0FFF\<rparr>", simplified]) (simp_all add: c1_def)
  moreover have "unat (stackPointer c1 - 1) < 16" "stackPointer c1 - 1 = stackPointer c8"
    using sp by (simp_all add: c1_def)
  ultimately have 2: "cycle r2 c1 = Inr (c1\<lparr>opcode := 0x00EE, stackPointer := stackPointer c8,
      programCounter := callStack c1 (unat (stackPointer c8))\<rparr>)"
    by (simp add: cycle_def Let_def decode_return dispatch_return op00EE_def)
  have "callStack c1 (unat (stackPointer c8)) = programCounter c8 + 2" "programCounter c1 = w AND 0x0FFF"
    by (simp_all add: c1_def)
  with 1 2 show ?thesis
    by simp
qed


theorem call_return_roundtrip_witness:
  "unat (stackPointer roundState) \<le> 15
   \<and> fetch roundState = Inr (roundState\<lparr>opcode := 0x2300\<rparr>)
   \<and> fetch (roundState\<lparr>programCounter := 0x300\<rparr>)
       = Inr (roundState\<lparr>programCounter := 0x300, opcode := 0x00EE\<rparr>)
   \<and> (\<exists>c1 c2. cycle 0 roundState = Inr c1 \<and> cycle 0 c1 = Inr c2
          \<and> programCounter c1 = 0x300 \<and> programCounter c2 = 0x202 \<and> stackPointer c2 = 3)"
proof -
  have sp: "unat (stackPointer roundState) \<le> 15"
    by (simp add: roundState_def zeroChip8_def)
  have f1: "fetch roundState = Inr (roundState\<lparr>opcode := 0x2300\<rparr>)"
    by (simp add: fetch_def readMemory_def memorySize_def roundState_def zeroChip8_def zeroArray_def)
  have f2: "fetch (roundState\<lparr>programCounter := 0x2300 AND 0x0FFF\<rparr>)
       = Inr (roundState\<lparr>programCounter := 0x2300 AND 0x0FFF, opcode := 0x00EE\<rparr>)"
    by (simp add: fetch_def readMemory_def memorySize_def roundState_def zeroChip8_def zeroArray_def)
  have v: "programCounter roundState + 2 = 0x202" "stackPointer roundState = 3"
    by (simp_all add: roundState_def zeroChip8_def)
  from call_return_roundtrip [OF sp f1 _ f2, of 0 0] v sp f1 f2 show ?thesis
    by simp
qed

subsection \<open>Wait for a key\<close>

lemma setVX_setVX: "setVX (setVX c a) b = setVX c b"
  by (simp add: setVX_def opX_def)

lemma keyPad_setVX: "keyPad (setVX c a) = keyPad c"
  by (simp add: setVX_def)

lemma waitKey_fold:
  "fold waitKeyStep [0..<n] (c8, False) =
     (if \<forall>k<n. keyPad c8 k = 0 then (c8, False)
      else (setVX c8 (of_nat (GREATEST k. k < n \<and> keyPad c8 k \<noteq> 0)), True))"
proof (induction n)
  case 0
  then show ?case by simp
next
  case (Suc n)
  show ?case
  proof (cases "keyPad c8 n = 0")
    case True
    then have "(\<forall>k<Suc n. keyPad c8 k = 0) = (\<forall>k<n. keyPad c8 k = 0)"
      by (auto simp: less_Suc_eq)
    moreover from True have "(\<lambda>k. k < Suc n \<and> keyPad c8 k \<noteq> 0) = (\<lambda>k. k < n \<and> keyPad c8 k \<noteq> 0)"
      by (auto simp: less_Suc_eq)
    ultimately show ?thesis
      using Suc True by (simp add: waitKeyStep_def keyPad_setVX)
  next
    case False
    then have "(GREATEST k. k < Suc n \<and> keyPad c8 k \<noteq> 0) = n"
      by (intro Greatest_equality) auto
    moreover from False have "\<not> (\<forall>k<Suc n. keyPad c8 k = 0)"
      by auto
    ultimately show ?thesis
      using Suc False by (simp add: waitKeyStep_def keyPad_setVX setVX_setVX)
  qed
qed


lemma decode_wait_key: "opcode c AND 0xF0FF = 0xF00A \<Longrightarrow> decodeOpcode c = 0xF00A"
proof -
  assume a: "opcode c AND 0xF0FF = 0xF00A"
  have "opcode c AND 0xF000 = (opcode c AND 0xF0FF) AND 0xF000"
    by (simp add: and.assoc)
  with a have "opcode c AND 0xF000 = 0xF000"
    by simp
  with a show ?thesis
    by (simp add: decodeOpcode_def)
qed

lemma dispatch_wait_key: "dispatchTable rnd 0xF00A = Some opFX0A"
  by (simp add: dispatchTable_def)

text \<open>
  C7. For every machine state whose fetch reads an opcode FX0A: if none of the 16 keys
  is pressed, the cycle leaves the state as it was apart from the fetched opcode, so the
  program counter equals its value before the cycle and VX is unchanged; if some key is
  pressed, the program counter has advanced by 2 and VX holds the highest index among the
  pressed keys, nothing else but the fetched opcode having changed.
\<close>

theorem cycle_wait_for_key:
  assumes "fetch c8 = Inr (c8\<lparr>opcode := w\<rparr>)" and "w AND 0xF0FF = 0xF00A"
  shows "((\<forall>k<16. keyPad c8 k = 0) \<longrightarrow> cycle rnd c8 = Inr (c8\<lparr>opcode := w\<rparr>))
       \<and> ((\<exists>k<16. keyPad c8 k \<noteq> 0) \<longrightarrow>
            (\<exists>k<16. keyPad c8 k \<noteq> 0 \<and> (\<forall>j<16. keyPad c8 j \<noteq> 0 \<longrightarrow> j \<le> k)
               \<and> cycle rnd c8 =
                   Inr (c8\<lparr>opcode := w, programCounter := programCounter c8 + 2,
                            registers := (registers c8)
                              (unat (drop_bit 8 (w AND 0x0F00)) := of_nat k)\<rparr>)))"
proof -
  define c2 where "c2 = c8\<lparr>opcode := w, programCounter := programCounter c8 + 2\<rparr>"
  have k: "keyPad c2 = keyPad c8"
    by (simp add: c2_def)
  have cyc: "cycle rnd c8 = opFX0A c2"
    using assms by (simp add: cycle_def Let_def decode_wait_key dispatch_wait_key c2_def)
  have none: "cycle rnd c8 = Inr (c8\<lparr>opcode := w\<rparr>)" if "\<forall>k<16. keyPad c8 k = 0"
    using that unfolding cyc opFX0A_def waitKey_fold k
    by (simp add: c2_def)
  have some: "\<exists>k<16. keyPad c8 k \<noteq> 0 \<and> (\<forall>j<16. keyPad c8 j \<noteq> 0 \<longrightarrow> j \<le> k)
               \<and> cycle rnd c8 =
                   Inr (c8\<lparr>opcode := w, programCounter := programCounter c8 + 2,
                            registers := (registers c8)
                              (unat (drop_bit 8 (w AND 0x0F00)) := of_nat k)\<rparr>)"
    if "\<exists>k<16. keyPad c8 k \<noteq> 0"
  proof -
    let ?P = "\<lambda>k. k < 16 \<and> keyPad c8 k \<noteq> 0"
    let ?g = "Greatest ?P"
    from that obtain k0 where "?P k0" by blast
    then have g: "?P ?g"
      by (rule GreatestI_nat [where b = 16]) simp
    have mx: "j \<le> ?g" if "?P j" for j
      using that by (rule Greatest_le_nat [where b = 16]) simp
    from that have nz: "(\<forall>k<16. keyPad c8 k = 0) = False"
      by auto
    have "cycle rnd c8 = Inr (setVX c2 (of_nat ?g))"
      unfolding cyc opFX0A_def waitKey_fold k nz by simp
    then have "cycle rnd c8 = Inr (c8\<lparr>opcode := w, programCounter := programCounter c8 + 2,
                            registers := (registers c8)
                              (unat (drop_bit 8 (w AND 0x0F00)) := of_nat ?g)\<rparr>)"
      by (simp add: setVX_def c2_def opX_def)
    with g mx show ?thesis
      by blast
  qed
  from none some show ?thesis
    by blast
qed


theorem cycle_wait_for_key_witness:
  "fetch (waitState zeroArray) = Inr (waitState zeroArray\<lparr>opcode := 0xF40A\<rparr>)
   \<and> keyPad (waitState zeroArray) = zeroArray
   \<and> cycle 0 (waitState zeroArray) = Inr (waitState zeroArray\<lparr>opcode := 0xF40A\<rparr>)
   \<and> programCounter (waitState zeroArray) = 0x200
   \<and> registers (waitState zeroArray) 4 = 0x77
   \<and> fetch (waitState (zeroArray(2 := 1, 9 := 1)))
       = Inr (waitState (zeroArray(2 := 1, 9 := 1))\<lparr>opcode := 0xF40A\<rparr>)
   \<and> cycle 0 (waitState (zeroArray(2 := 1, 9 := 1)))
       = Inr (waitState (zeroArray(2 := 1, 9 := 1))
               \<lparr>opcode := 0xF40A, programCounter := 0x202,
                registers := zeroArray(4 := 0x9)\<rparr>)"
proof -
  let ?pressed = "zeroArray(2 := 1, 9 := 1) :: nat \<Rightarrow> u8"
  have f: "fetch (waitState keys) = Inr (waitState keys\<lparr>opcode := 0xF40A\<rparr>)" for keys
    by (simp add: fetch_def readMemory_def memorySize_def waitState_def zeroChip8_def zeroArray_def)
  have m: "(0xF40A :: u16) AND 0xF0FF = 0xF00A"
    by simp
  have kp: "keyPad (waitState keys) = keys" "programCounter (waitState keys) = 0x200"
    "registers (waitState keys) = zeroArray(4 := 0x77)" for keys
    by (simp_all add: waitState_def zeroChip8_def)
  have z: "\<forall>k<16. zeroArray k = (0 :: u8)"
    by (simp add: zeroArray_def)
  from cycle_wait_for_key [OF f m, of zeroArray 0] z
  have 1: "cycle 0 (waitState zeroArray) = Inr (waitState zeroArray\<lparr>opcode := 0xF40A\<rparr>)"
    by (simp add: kp)
  have p: "\<exists>k<16. ?pressed k \<noteq> 0"
    by (rule exI [of _ 2]) simp
  from cycle_wait_for_key [OF f m, of ?pressed 0] p
  obtain k where k: "k < 16" "?pressed k \<noteq> 0" "\<forall>j<16. ?pressed j \<noteq> 0 \<longrightarrow> j \<le> k"
    and c: "cycle 0 (waitState ?pressed) =
       Inr (waitState ?pressed\<lparr>opcode := 0xF40A, programCounter := programCounter (waitState ?pressed) + 2,
              registers := (registers (waitState ?pressed))(unat (drop_bit 8 (0xF40A AND 0x0F00 :: u16)) := of_nat k)\<rparr>)"
    unfolding kp by blast
  from k(2) have "k = 2 \<or> k = 9"
    by (simp add: zeroArray_def split: if_splits)
  moreover from k(3) have "9 \<le> k"
    by (simp add: zeroArray_def)
  ultimately have "k = 9" by simp
  with c have 2: "cycle 0 (waitState ?pressed)
       = Inr (waitState ?pressed\<lparr>opcode := 0xF40A, programCounter := 0x202,
                registers := zeroArray(4 := 0x9)\<rparr>)"
    by (simp add: kp drop_bit_eq_div)
  from f [of zeroArray] f [of ?pressed] z 1 2 kp [of zeroArray] show ?thesis
    by simp
qed

subsection \<open>Loading a ROM\<close>

text \<open>
  C8. For every ROM image longer than 3584 bytes, \<^verbatim>\<open>loadRom\<close> returns an error and leaves
  the machine, its memory included, as it was, and \<^verbatim>\<open>Run\<close> returns that error, wrapped,
  with the machine as it was and whatever the tickers would deliver: the run loop is not
  entered and the running flag is not set. For every image of at most 3584 bytes,
  \<^verbatim>\<open>loadRom\<close> returns no error, changes the memory only, and the memory holds the image
  byte for byte from address 0x200, its other cells unchanged.
\<close>

theorem rom_load:
  "(3584 < length data \<longrightarrow>
      loadRom c8 (Some data) = (Some (RomTooLarge (length data) 3584), c8)
    \<and> Run c8 (Some data) scale profileName ticks
        = (Returned (Some (FailedToLoadRom (RomTooLarge (length data) 3584))), c8))
   \<and> (length data \<le> 3584 \<longrightarrow>
      (\<exists>c1. loadRom c8 (Some data) = (None, c1)
         \<and> c1 = c8\<lparr>memory := memory c1\<rparr>
         \<and> (\<forall>i<length data. memory c1 (0x200 + i) = data ! i)
         \<and> (\<forall>a. a < 0x200 \<or> 0x200 + length data \<le> a \<longrightarrow> memory c1 a = memory c8 a)))"
  by (auto simp: loadRom_def Run_def memorySize_def startAddress_def copyInto_def)

theorem rom_load_witness:
  "3584 < length bigRom
   \<and> loadRom zeroChip8 (Some bigRom) = (Some (RomTooLarge 3585 3584), zeroChip8)
   \<and> Run zeroChip8 (Some bigRom) 20 ''black-white'' [ClockTick zeroArray False 0]
        = (Returned (Some (FailedToLoadRom (RomTooLarge 3585 3584))), zeroChip8)
   \<and> \<not> running zeroChip8
   \<and> length smallRom \<le> 3584
   \<and> (\<exists>c1. loadRom zeroChip8 (Some smallRom) = (None, c1)
         \<and> memory c1 0x200 = 0xA2 \<and> memory c1 0x207 = 0x23 \<and> memory c1 0x208 = 0)"
proof -
  have b: "length bigRom = 3585" by (simp add: bigRom_def)
  have s: "length smallRom = 8" by (simp add: smallRom_def)
  have nr: "\<not> running zeroChip8" by (simp add: zeroChip8_def)
  from rom_load [of bigRom zeroChip8 20 "''black-white''" "[ClockTick zeroArray False 0]"] b
  have 1: "loadRom zeroChip8 (Some bigRom) = (Some (RomTooLarge 3585 3584), zeroChip8)"
    "Run zeroChip8 (Some bigRom) 20 ''black-white'' [ClockTick zeroArray False 0]
        = (Returned (Some (FailedToLoadRom (RomTooLarge 3585 3584))), zeroChip8)"
    by simp_all
  from rom_load [of smallRom zeroChip8] s
  obtain c1 where c: "loadRom zeroChip8 (Some smallRom) = (None, c1)"
    "\<forall>i<8. memory c1 (0x200 + i) = smallRom ! i"
    "\<forall>a. a < 0x200 \<or> 0x208 \<le> a \<longrightarrow> memory c1 a = memory zeroChip8 a"
    by auto
  from c(2) [rule_format, of 0] c(2) [rule_format, of 7]
  have "memory c1 0x200 = smallRom ! 0" "memory c1 0x207 = smallRom ! 7"
    by simp_all
  moreover from c(3) have "memory c1 0x208 = memory zeroChip8 0x208"
    by simp
  ultimately have "memory c1 0x200 = 0xA2 \<and> memory c1 0x207 = 0x23 \<and> memory c1 0x208 = 0"
    by (simp add: smallRom_def zeroChip8_def zeroArray_def)
  with c(1) b s nr 1 show ?thesis
    by auto
qed

subsection \<open>Register dump and register load\<close>

declare dumpRegisters.simps [simp del] loadRegisters.simps [simp del]
  drawBits.simps [simp del] drawRows.simps [simp del]

lemma opX_bound: "opX c < 16"
proof -
  have "opcode c AND 0x0F00 \<le> 0x0F00"
    by (rule word_and_le1)
  then have "unat (opcode c AND 0x0F00) \<le> 0x0F00"
    by (simp add: word_le_nat_alt)
  then have "unat (opcode c AND 0x0F00) div 2 ^ 8 < 16"
    by simp
  then have "drop_bit 8 (unat (opcode c AND 0x0F00)) < 16"
    by (simp add: drop_bit_eq_div)
  then show ?thesis
    by (simp only: opX_def unat_drop_bit_eq)
qed

lemma unat_vx: "unat (ucast (drop_bit 8 (opcode c AND 0x0F00)) :: u8) = opX c"
proof -
  have "unat (ucast (drop_bit 8 (opcode c AND 0x0F00)) :: u8) = opX c mod 256"
    by (simp only: opX_def unsigned_ucast_eq take_bit_eq_mod) simp
  with opX_bound [of c] show ?thesis by simp
qed

lemma unat_of_nat_u8: "n < 256 \<Longrightarrow> unat (of_nat n :: u8) = n"
  by (simp add: unat_of_nat)

lemma unat_index_plus:
  "unat (a :: u16) + n < 4096 \<Longrightarrow> unat (a + of_nat n) = unat a + n"
  by (simp add: unat_word_ariths unat_of_nat)

lemma dump_loop:
  assumes "unat vx < 16" and "unat (indexRegister c) + unat vx < 4096"
  shows "n \<le> unat vx + 1 \<Longrightarrow>
    \<exists>m. dumpRegisters vx (int n) c = Inr (c\<lparr>memory := m\<rparr>)
       \<and> (\<forall>a. m a =
            (if unat (indexRegister c) + n \<le> a \<and> a \<le> unat (indexRegister c) + unat vx
             then registers c (a - unat (indexRegister c)) else memory c a))"
  using assms
proof (induction "unat vx + 1 - n" arbitrary: n c)
  case 0
  then have n: "n = unat vx + 1" by simp
  from 0 have "n < 256" by simp
  then have "unat (of_nat n :: u8) = n"
    by (rule unat_of_nat_u8)
  with n have "\<not> (of_nat n :: u8) \<le> vx"
    unfolding word_le_nat_alt by simp
  then have "dumpRegisters vx (int n) c = Inr c"
    by (subst dumpRegisters.simps) simp
  with n show ?case
    by (intro exI [of _ "memory c"]) auto
next
  case (Suc k)
  then have n: "n \<le> unat vx" "n < 16" by simp_all
  then have "n < 256" by simp
  then have "unat (of_nat n :: u8) = n"
    by (rule unat_of_nat_u8)
  with n have le: "(of_nat n :: u8) \<le> vx"
    unfolding word_le_nat_alt by simp
  let ?I = "unat (indexRegister c)"
  have ix: "unat (indexRegister c + of_nat n) = ?I + n"
    using Suc.prems n by (intro unat_index_plus) simp
  define c1 where "c1 = c\<lparr>memory := (memory c)(?I + n := registers c n)\<rparr>"
  have w: "writeMemory c (indexRegister c + of_nat n) (registers c n) = Inr c1"
    using Suc.prems n by (simp add: writeMemory_def ix memorySize_def c1_def)
  have step: "dumpRegisters vx (int n) c = dumpRegisters vx (int (Suc n)) c1"
    using le n w by (subst dumpRegisters.simps) (simp add: add.commute)
  have "k = unat vx + 1 - Suc n" using Suc.hyps by simp
  moreover have "Suc n \<le> unat vx + 1" using n by simp
  moreover have "unat (indexRegister c1) + unat vx < 4096" using Suc.prems by (simp add: c1_def)
  ultimately obtain m where m: "dumpRegisters vx (int (Suc n)) c1 = Inr (c1\<lparr>memory := m\<rparr>)"
    "\<forall>a. m a =
            (if unat (indexRegister c1) + Suc n \<le> a \<and> a \<le> unat (indexRegister c1) + unat vx
             then registers c1 (a - unat (indexRegister c1)) else memory c1 a)"
    using Suc.hyps(1) [of "Suc n" c1] Suc.prems(2) by blast
  from m(1) step have "dumpRegisters vx (int n) c = Inr (c\<lparr>memory := m\<rparr>)"
    by (simp add: c1_def)
  moreover from m(2) n have "\<forall>a. m a =
            (if ?I + n \<le> a \<and> a \<le> ?I + unat vx
             then registers c (a - ?I) else memory c a)"
    by (auto simp: c1_def)
  ultimately show ?case
    by blast
qed

lemma load_loop:
  assumes "unat vx < 16" and "unat (indexRegister c) + unat vx < 4096"
  shows "n \<le> unat vx + 1 \<Longrightarrow>
    \<exists>rs. loadRegisters vx (int n) c = Inr (c\<lparr>registers := rs\<rparr>)
       \<and> (\<forall>r. rs r =
            (if n \<le> r \<and> r \<le> unat vx
             then memory c (unat (indexRegister c) + r) else registers c r))"
  using assms
proof (induction "unat vx + 1 - n" arbitrary: n c)
  case 0
  then have n: "n = unat vx + 1" by simp
  from 0 have "n < 256" by simp
  then have "unat (of_nat n :: u8) = n"
    by (rule unat_of_nat_u8)
  with n have "\<not> (of_nat n :: u8) \<le> vx"
    unfolding word_le_nat_alt by simp
  then have "loadRegisters vx (int n) c = Inr c"
    by (subst loadRegisters.simps) simp
  with n show ?case
    by (intro exI [of _ "registers c"]) auto
next
  case (Suc k)
  then have n: "n \<le> unat vx" "n < 16" by simp_all
  then have "n < 256" by simp
  then have "unat (of_nat n :: u8) = n"
    by (rule unat_of_nat_u8)
  with n have le: "(of_nat n :: u8) \<le> vx"
    unfolding word_le_nat_alt by simp
  let ?I = "unat (indexRegister c)"
  have ix: "unat (indexRegister c + of_nat n) = ?I + n"
    using Suc.prems n by (intro unat_index_plus) simp
  define c1 where "c1 = c\<lparr>registers := (registers c)(n := memory c (?I + n))\<rparr>"
  have r: "readMemory c (indexRegister c + of_nat n) = Inr (memory c (?I + n))"
    using Suc.prems n by (simp add: readMemory_def ix memorySize_def)
  have step: "loadRegisters vx (int n) c = loadRegisters vx (int (Suc n)) c1"
    using le n r by (subst loadRegisters.simps) (simp add: add.commute c1_def)
  have "k = unat vx + 1 - Suc n" using Suc.hyps by simp
  moreover have "Suc n \<le> unat vx + 1" using n by simp
  moreover have "unat (indexRegister c1) + unat vx < 4096" using Suc.prems by (simp add: c1_def)
  ultimately obtain rs where rs: "loadRegisters vx (int (Suc n)) c1 = Inr (c1\<lparr>registers := rs\<rparr>)"
    "\<forall>r. rs r =
            (if Suc n \<le> r \<and> r \<le> unat vx
             then memory c1 (unat (indexRegister c1) + r) else registers c1 r)"
    using Suc.hyps(1) [of "Suc n" c1] Suc.prems(2) by blast
  from rs(1) step have "loadRegisters vx (int n) c = Inr (c\<lparr>registers := rs\<rparr>)"
    by (simp add: c1_def)
  moreover from rs(2) n have "\<forall>r. rs r =
            (if n \<le> r \<and> r \<le> unat vx
             then memory c (?I + r) else registers c r)"
    by (auto simp: c1_def)
  ultimately show ?case
    by blast
qed

lemma x_plus_1: "drop_bit 8 (opcode c AND 0x0F00) + 1 = (of_nat (opX c + 1) :: u16)"
  by (simp add: opX_def)

text \<open>
  C2, as the claim states it for every machine state, fails: with I = 0x0FFF and X = 1
  the second cell lies outside the 4096 bytes of memory, and both the dump and the load
  end in the run-time panic of the array access instead of a state.
\<close>

theorem register_dump_load_counterexample:
  "opFX55 (dumpState 0x0FFF) = Inl (IndexOutOfRange 4096 4096)
   \<and> opFX65 (dumpState 0x0FFF\<lparr>opcode := 0xF165\<rparr>) = Inl (IndexOutOfRange 4096 4096)"
  by (simp add: opFX55_def opFX65_def dumpState_def zeroChip8_def dumpRegisters.simps
      loadRegisters.simps writeMemory_def readMemory_def memorySize_def drop_bit_eq_div)

text \<open>
  C2, amended. For every X in 0..0xF and every machine state in which I + X < 4096 (the
  cells I..I+X lie inside memory): after FX55 the memory cells I..I+X hold the values of
  V0..VX, the other cells are unchanged and the index register equals X + 1; after FX65
  the registers V0..VX hold the values of the memory cells I..I+X, the other registers are
  unchanged and the index register equals X + 1. Nothing else changes.
\<close>

theorem register_dump_load:
  assumes "unat (indexRegister c8) + opX c8 < 4096"
  shows "(\<exists>m. opFX55 c8 = Inr (c8\<lparr>memory := m, indexRegister := of_nat (opX c8 + 1)\<rparr>)
            \<and> (\<forall>i. i \<le> opX c8 \<longrightarrow> m (unat (indexRegister c8) + i) = registers c8 i)
            \<and> (\<forall>a. a < unat (indexRegister c8) \<or> unat (indexRegister c8) + opX c8 < a
                   \<longrightarrow> m a = memory c8 a))
       \<and> (\<exists>rs. opFX65 c8 = Inr (c8\<lparr>registers := rs, indexRegister := of_nat (opX c8 + 1)\<rparr>)
            \<and> (\<forall>i. i \<le> opX c8 \<longrightarrow> rs i = memory c8 (unat (indexRegister c8) + i))
            \<and> (\<forall>i. opX c8 < i \<longrightarrow> rs i = registers c8 i))"
proof -
  define vx :: u8 where "vx = ucast (drop_bit 8 (opcode c8 AND 0x0F00))"
  let ?I = "unat (indexRegister c8)"
  have uv: "unat vx = opX c8"
    by (simp only: vx_def unat_vx)
  have vx: "unat vx < 16" "?I + unat vx < 4096"
    using assms opX_bound [of c8] by (simp_all only: uv)
  from dump_loop [OF vx, of 0] obtain m where m: "dumpRegisters vx 0 c8 = Inr (c8\<lparr>memory := m\<rparr>)"
    "\<forall>a. m a = (if ?I \<le> a \<and> a \<le> ?I + opX c8 then registers c8 (a - ?I) else memory c8 a)"
    by (auto simp: uv)
  from load_loop [OF vx, of 0] obtain rs where rs: "loadRegisters vx 0 c8 = Inr (c8\<lparr>registers := rs\<rparr>)"
    "\<forall>r. rs r = (if r \<le> opX c8 then memory c8 (?I + r) else registers c8 r)"
    by (auto simp: uv)
  have "opFX55 c8 = Inr (c8\<lparr>memory := m, indexRegister := of_nat (opX c8 + 1)\<rparr>)"
    unfolding opFX55_def Let_def vx_def [symmetric] m(1) x_plus_1 by (simp add: opX_def)
  moreover have "\<forall>i. i \<le> opX c8 \<longrightarrow> m (?I + i) = registers c8 i"
    using m(2) by simp
  moreover have "\<forall>a. a < ?I \<or> ?I + opX c8 < a \<longrightarrow> m a = memory c8 a"
    using m(2) by auto
  moreover have "opFX65 c8 = Inr (c8\<lparr>registers := rs, indexRegister := of_nat (opX c8 + 1)\<rparr>)"
    unfolding opFX65_def Let_def vx_def [symmetric] rs(1) x_plus_1 by (simp add: opX_def)
  moreover have "\<forall>i. i \<le> opX c8 \<longrightarrow> rs i = memory c8 (?I + i)"
    using rs(2) by simp
  moreover have "\<forall>i. opX c8 < i \<longrightarrow> rs i = registers c8 i"
    using rs(2) by simp
  ultimately show ?thesis
    by blast
qed


theorem register_dump_load_witness:
  "unat (indexRegister (dumpState 0x300)) + opX (dumpState 0x300) < 4096
   \<and> (\<exists>m. opFX55 (dumpState 0x300) = Inr (dumpState 0x300\<lparr>memory := m, indexRegister := 2\<rparr>)
         \<and> m 0x300 = 0x11 \<and> m 0x301 = 0x22 \<and> m 0x302 = 0xCC)
   \<and> (\<exists>rs. opFX65 (dumpState 0x300) = Inr (dumpState 0x300\<lparr>registers := rs, indexRegister := 2\<rparr>)
         \<and> rs 0 = 0xAA \<and> rs 1 = 0xBB \<and> rs 2 = 0x33)"
proof -
  have x: "opX (dumpState 0x300) = 1" "unat (indexRegister (dumpState 0x300)) = 0x300"
    by (simp_all add: dumpState_def zeroChip8_def opX_def drop_bit_eq_div)
  then have h: "unat (indexRegister (dumpState 0x300)) + opX (dumpState 0x300) < 4096"
    by simp
  have v: "registers (dumpState 0x300) = zeroArray(0 := 0x11, 1 := 0x22, 2 := 0x33)"
    "memory (dumpState 0x300) = zeroArray(0x300 := 0xAA, 0x301 := 0xBB, 0x302 := 0xCC)"
    by (simp_all add: dumpState_def zeroChip8_def)
  from register_dump_load [OF h] obtain m rs where
    m: "opFX55 (dumpState 0x300) = Inr (dumpState 0x300\<lparr>memory := m, indexRegister := 2\<rparr>)"
      "\<forall>i. i \<le> 1 \<longrightarrow> m (0x300 + i) = registers (dumpState 0x300) i"
      "\<forall>a. a < 0x300 \<or> 0x301 < a \<longrightarrow> m a = memory (dumpState 0x300) a"
    and rs: "opFX65 (dumpState 0x300) = Inr (dumpState 0x300\<lparr>registers := rs, indexRegister := 2\<rparr>)"
      "\<forall>i. i \<le> 1 \<longrightarrow> rs i = memory (dumpState 0x300) (0x300 + i)"
      "\<forall>i. 1 < i \<longrightarrow> rs i = registers (dumpState 0x300) i"
    unfolding x by auto
  from m(2) [rule_format, of 0] m(2) [rule_format, of 1] m(3) [rule_format, of "0x302"]
  have "m 0x300 = 0x11 \<and> m 0x301 = 0x22 \<and> m 0x302 = 0xCC"
    by (simp add: v)
  moreover from rs(2) [rule_format, of 0] rs(2) [rule_format, of 1] rs(3) [rule_format, of 2]
  have "rs 0 = 0xAA \<and> rs 1 = 0xBB \<and> rs 2 = 0x33"
    by (simp add: v)
  ultimately show ?thesis
    using h m(1) rs(1) by blast
qed

subsection \<open>Draw\<close>

lemma unat_of_nat_u16: "n < 65536 \<Longrightarrow> unat (of_nat n :: u16) = n"
  by (simp add: unat_of_nat)

lemma col_coord: "n < 256 \<Longrightarrow> unat (((p :: u8) + ucast (of_nat n :: u16)) mod 64) = (unat p + n) mod 64"
proof -
  assume n: "n < 256"
  have "unat (ucast (of_nat n :: u16) :: u8) = n"
    using n by (simp add: unsigned_ucast_eq take_bit_eq_mod unat_of_nat)
  then have "unat (p + ucast (of_nat n :: u16)) = (unat p + n) mod 256"
    by (simp add: unat_word_ariths)
  then have "unat ((p + ucast (of_nat n :: u16)) mod 64) = ((unat p + n) mod 256) mod 64"
    by (simp add: unat_mod)
  also have "\<dots> = (unat p + n) mod 64"
    by (rule mod_mod_cancel) simp
  finally show ?thesis .
qed

lemma row_coord: "n < 256 \<Longrightarrow> unat (((p :: u8) + ucast (of_nat n :: u16)) mod 32) = (unat p + n) mod 32"
proof -
  assume n: "n < 256"
  have "unat (ucast (of_nat n :: u16) :: u8) = n"
    using n by (simp add: unsigned_ucast_eq take_bit_eq_mod unat_of_nat)
  then have "unat (p + ucast (of_nat n :: u16)) = (unat p + n) mod 256"
    by (simp add: unat_word_ariths)
  then have "unat ((p + ucast (of_nat n :: u16)) mod 32) = ((unat p + n) mod 256) mod 32"
    by (simp add: unat_mod)
  also have "\<dots> = (unat p + n) mod 32"
    by (rule mod_mod_cancel) simp
  finally show ?thesis .
qed

lemma sprite_bit_test: "n < 8 \<Longrightarrow> ((p :: u8) AND drop_bit n 0x80 \<noteq> 0) = bit p (7 - n)"
proof -
  assume n: "n < 8"
  have e: "(0x80 :: u8) = 2 ^ 7" by simp
  have "drop_bit n (2 ^ 7 :: u8) = 2 ^ (7 - n)"
    unfolding drop_bit_exp_eq using n by simp
  then have "drop_bit n (0x80 :: u8) = 2 ^ (7 - n)"
    unfolding e .
  then show ?thesis
    by (simp add: and_exp_eq_0_iff_not_bit)
qed

lemma shift_mod_inj:
  fixes a i i' m :: nat
  assumes "i < m" and "i' < m" and "(a + i) mod m = (a + i') mod m"
  shows "i = i'"
proof -
  have aux: "x = y" if "x \<le> y" and "y < m" and "(a + x) mod m = (a + y) mod m" for x y
  proof -
    from that have "a + x \<le> a + y" and "(a + y) mod m = (a + x) mod m"
      by simp_all
    then have "m dvd (a + y) - (a + x)"
      by (simp only: mod_eq_dvd_iff_nat)
    then have "m dvd y - x"
      by simp
    moreover have "y - x < m"
      using that by simp
    ultimately have "y - x = 0"
      using dvd_imp_le [of m "y - x"] by (cases "y - x = 0") simp_all
    with that show ?thesis
      by simp
  qed
  show ?thesis
    using aux [of i i'] aux [of i' i] assms by (cases "i \<le> i'") auto
qed


lemma drawPixel_eq:
  assumes "n < 256" and "k < 256"
  shows "drawPixel x y (of_nat n) (of_nat k) c =
    c\<lparr>registers := (if display c ((unat y + n) mod 32) ((unat x + k) mod 64)
                      then (registers c)(0xF := 1) else registers c),
      display := (display c)((unat y + n) mod 32 :=
                   (display c ((unat y + n) mod 32))((unat x + k) mod 64 :=
                      \<not> display c ((unat y + n) mod 32) ((unat x + k) mod 64)))\<rparr>"
proof -
  have hw: "(of_nat displayHeight :: u8) = 32" "(of_nat displayWidth :: u8) = 64"
    by (simp_all add: displayHeight_def displayWidth_def)
  show ?thesis
    unfolding drawPixel_def Let_def hw row_coord [OF assms(1)] col_coord [OF assms(2)]
    by (simp add: setVF_def)
qed

lemma bits_loop:
  assumes n: "n < 256"
  shows "k \<le> 8 \<Longrightarrow>
    \<exists>rg d. drawBits p x y (of_nat n) (of_nat k) c = c\<lparr>registers := rg, display := d\<rparr>
      \<and> rg = (if \<exists>i. k \<le> i \<and> i < 8 \<and> bit p (7 - i)
                     \<and> display c ((unat y + n) mod 32) ((unat x + i) mod 64)
               then (registers c)(0xF := 1) else registers c)
      \<and> (\<forall>r cc. d r cc =
            (display c r cc \<noteq>
               (r = (unat y + n) mod 32
                \<and> (\<exists>i. k \<le> i \<and> i < 8 \<and> bit p (7 - i) \<and> cc = (unat x + i) mod 64))))"
proof (induction "8 - k" arbitrary: k c)
  case 0
  then have k: "k = 8" by simp
  have "drawBits p x y (of_nat n) (of_nat k) c = c"
    unfolding k by (subst drawBits.simps) simp
  then show ?case
    using k by (intro exI [of _ "registers c"] exI [of _ "display c"]) auto
next
  case (Suc m)
  let ?r0 = "(unat y + n) mod 32"
  let ?col = "\<lambda>i. (unat x + i) mod 64"
  from Suc have k: "k < 8" by simp
  then have uk: "unat (of_nat k :: u16) = k"
    by (simp add: unat_of_nat_u16)
  with k have lt: "(of_nat k :: u16) < 8"
    unfolding word_less_nat_alt by simp
  define c' where "c' = (if bit p (7 - k) then drawPixel x y (of_nat n) (of_nat k) c else c)"
  have step: "drawBits p x y (of_nat n) (of_nat k) c = drawBits p x y (of_nat n) (of_nat (Suc k)) c'"
    using lt k by (subst drawBits.simps) (simp add: uk sprite_bit_test c'_def add.commute)
  have "m = 8 - Suc k" and "Suc k \<le> 8"
    using Suc.hyps(2) k by simp_all
  from Suc.hyps(1) [OF this, of c'] obtain rg d where
    res: "drawBits p x y (of_nat n) (of_nat (Suc k)) c' = c'\<lparr>registers := rg, display := d\<rparr>"
    and rg: "rg = (if \<exists>i. Suc k \<le> i \<and> i < 8 \<and> bit p (7 - i) \<and> display c' ?r0 (?col i)
               then (registers c')(0xF := 1) else registers c')"
    and d: "\<forall>r cc. d r cc =
            (display c' r cc \<noteq> (r = ?r0 \<and> (\<exists>i. Suc k \<le> i \<and> i < 8 \<and> bit p (7 - i) \<and> cc = ?col i)))"
    by blast
  have inj: "?col i \<noteq> ?col k" if "Suc k \<le> i" "i < 8" for i
    using shift_mod_inj [of i 64 k "unat x"] that k by auto
  show ?case
  proof (cases "bit p (7 - k)")
    case False
    then have c': "c' = c" by (simp add: c'_def)
    have ex: "(\<exists>i. k \<le> i \<and> i < 8 \<and> bit p (7 - i) \<and> P i) = (\<exists>i. Suc k \<le> i \<and> i < 8 \<and> bit p (7 - i) \<and> P i)" for P
      using False by (metis Suc_leI le_neq_implies_less Suc_leD)
    show ?thesis
      using res rg d unfolding step c' ex by blast
  next
    case True
    have k': "k < 256" using k by simp
    have c': "c' = c\<lparr>registers := (if display c ?r0 (?col k) then (registers c)(0xF := 1) else registers c),
        display := (display c)(?r0 := (display c ?r0)(?col k := \<not> display c ?r0 (?col k)))\<rparr>"
      using True by (simp only: c'_def drawPixel_eq [OF n k'] if_True)
    have dc: "display c' ?r0 (?col i) = display c ?r0 (?col i)" if "Suc k \<le> i" "i < 8" for i
      using inj [OF that] by (simp add: c')
    have coll: "(\<exists>i. Suc k \<le> i \<and> i < 8 \<and> bit p (7 - i) \<and> display c' ?r0 (?col i))
        = (\<exists>i. Suc k \<le> i \<and> i < 8 \<and> bit p (7 - i) \<and> display c ?r0 (?col i))"
      using dc by blast
    have split: "(\<exists>i. k \<le> i \<and> i < 8 \<and> bit p (7 - i) \<and> P i)
        = (P k \<or> (\<exists>i. Suc k \<le> i \<and> i < 8 \<and> bit p (7 - i) \<and> P i))" for P
      using True k by (metis Suc_leI le_neq_implies_less Suc_leD le_refl)
    have 1: "drawBits p x y (of_nat n) (of_nat k) c = c\<lparr>registers := rg, display := d\<rparr>"
      unfolding step res by (simp add: c')
    have 2: "rg = (if \<exists>i. k \<le> i \<and> i < 8 \<and> bit p (7 - i) \<and> display c ?r0 (?col i)
               then (registers c)(0xF := 1) else registers c)"
      unfolding rg coll split by (auto simp: c')
    have 3: "d r cc = (display c r cc \<noteq> (r = ?r0 \<and> (\<exists>i. k \<le> i \<and> i < 8 \<and> bit p (7 - i) \<and> cc = ?col i)))" for r cc
    proof (cases "r = ?r0 \<and> cc = ?col k")
      case hit: True
      have "\<not> (\<exists>i. Suc k \<le> i \<and> i < 8 \<and> bit p (7 - i) \<and> ?col k = ?col i)"
        using inj by metis
      with hit have no: "(\<exists>i. Suc k \<le> i \<and> i < 8 \<and> bit p (7 - i) \<and> cc = ?col i) = False"
        by simp
      from hit have "display c' r cc = (\<not> display c r cc)"
        by (simp add: c')
      with hit show ?thesis
        unfolding d [rule_format] split no by simp
    next
      case miss: False
      then have "display c' r cc = display c r cc"
        by (auto simp: c')
      with miss show ?thesis
        unfolding d [rule_format] split by auto
    qed
    from 1 2 3 show ?thesis
      by blast
  qed
qed


lemma bits_row:
  assumes "n < 256"
  shows "\<exists>rg d. drawBits p x y (of_nat n) 0 c = c\<lparr>registers := rg, display := d\<rparr>
      \<and> rg = (if \<exists>i. i < 8 \<and> bit p (7 - i)
                     \<and> display c ((unat y + n) mod 32) ((unat x + i) mod 64)
               then (registers c)(0xF := 1) else registers c)
      \<and> (\<forall>r cc. d r cc =
            (display c r cc \<noteq>
               (r = (unat y + n) mod 32
                \<and> (\<exists>i. i < 8 \<and> bit p (7 - i) \<and> cc = (unat x + i) mod 64))))"
  using bits_loop [OF assms, of 0 p x y c] by simp

lemma ex_split_first:
  assumes "n < (N :: nat)"
  shows "(\<exists>j. n \<le> j \<and> j < N \<and> Q j) = (Q n \<or> (\<exists>j. Suc n \<le> j \<and> j < N \<and> Q j))"
proof
  assume "\<exists>j. n \<le> j \<and> j < N \<and> Q j"
  then obtain j where j: "n \<le> j" "j < N" "Q j"
    by blast
  show "Q n \<or> (\<exists>j. Suc n \<le> j \<and> j < N \<and> Q j)"
  proof (cases "j = n")
    case True
    with j show ?thesis by simp
  next
    case False
    with j have "Suc n \<le> j" by simp
    with j show ?thesis by blast
  qed
next
  assume "Q n \<or> (\<exists>j. Suc n \<le> j \<and> j < N \<and> Q j)"
  then show "\<exists>j. n \<le> j \<and> j < N \<and> Q j"
  proof
    assume "Q n"
    with assms show ?thesis by blast
  next
    assume "\<exists>j. Suc n \<le> j \<and> j < N \<and> Q j"
    then obtain j where "Suc n \<le> j" "j < N" "Q j" by blast
    then have "n \<le> j \<and> j < N \<and> Q j" by simp
    then show ?thesis ..
  qed
qed

lemma rows_loop:
  assumes N: "N < 16"
  shows "n \<le> N \<Longrightarrow> (\<forall>j. n \<le> j \<and> j < N \<longrightarrow> unat (indexRegister c) + j < 4096) \<Longrightarrow>
    \<exists>rg d. drawRows x y (of_nat N) (of_nat n) c = Inr (c\<lparr>registers := rg, display := d\<rparr>)
      \<and> rg = (if \<exists>j. n \<le> j \<and> j < N \<and> (\<exists>i. i < 8 \<and> spriteBit c j i
                     \<and> display c ((unat y + j) mod 32) ((unat x + i) mod 64))
               then (registers c)(0xF := 1) else registers c)
      \<and> (\<forall>r cc. d r cc =
            (display c r cc \<noteq>
               (\<exists>j. n \<le> j \<and> j < N \<and> (\<exists>i. i < 8 \<and> spriteBit c j i
                  \<and> r = (unat y + j) mod 32 \<and> cc = (unat x + i) mod 64))))"
proof (induction "N - n" arbitrary: n c)
  case 0
  then have n: "n = N" by simp
  have "drawRows x y (of_nat N) (of_nat n) c = Inr c"
    unfolding n by (subst drawRows.simps) simp
  then show ?case
    using n by (intro exI [of _ "registers c"] exI [of _ "display c"]) auto
next
  case (Suc m)
  let ?row = "\<lambda>j. (unat y + j) mod 32"
  let ?col = "\<lambda>i. (unat x + i) mod 64"
  let ?I = "unat (indexRegister c)"
  from Suc have n: "n < N" by simp
  with N have un: "unat (of_nat n :: u16) = n" "unat (of_nat N :: u16) = N"
    by (simp_all add: unat_of_nat_u16)
  with n have lt: "(of_nat n :: u16) < of_nat N"
    unfolding word_less_nat_alt by simp
  from Suc.prems(2) n have inb: "?I + n < 4096"
    by simp
  then have ix: "unat (indexRegister c + of_nat n) = ?I + n"
    by (rule unat_index_plus)
  define p where "p = memory c (?I + n)"
  have rd: "readMemory c (indexRegister c + of_nat n) = Inr p"
    using inb by (simp add: readMemory_def ix memorySize_def p_def)
  have n256: "n < 256" using n N by simp
  have sbn: "bit p (7 - i) = spriteBit c n i" for i
    by (simp add: spriteBit_def p_def)
  from bits_row [OF n256, of p x y c] obtain rg1 d1 where
    b: "drawBits p x y (of_nat n) 0 c = c\<lparr>registers := rg1, display := d1\<rparr>"
    and rg1: "rg1 = (if \<exists>i. i < 8 \<and> spriteBit c n i \<and> display c (?row n) (?col i)
               then (registers c)(0xF := 1) else registers c)"
    and d1: "\<forall>r cc. d1 r cc =
            (display c r cc \<noteq> (r = ?row n \<and> (\<exists>i. i < 8 \<and> spriteBit c n i \<and> cc = ?col i)))"
    unfolding sbn by blast
  define c' where "c' = c\<lparr>registers := rg1, display := d1\<rparr>"
  have step: "drawRows x y (of_nat N) (of_nat n) c = drawRows x y (of_nat N) (of_nat (Suc n)) c'"
  proof -
    have suc: "(of_nat n :: u16) + 1 = of_nat (Suc n)"
      by simp
    show ?thesis
      using lt by (subst drawRows.simps) (simp only: rd b c'_def suc if_True sum.case)
  qed
  have sb: "spriteBit c' = spriteBit c"
    by (simp add: fun_eq_iff spriteBit_def c'_def)
  have "m = N - Suc n" and "Suc n \<le> N"
    and "\<forall>j. Suc n \<le> j \<and> j < N \<longrightarrow> unat (indexRegister c') + j < 4096"
    using Suc.hyps(2) n Suc.prems(2) by (simp_all add: c'_def)
  from Suc.hyps(1) [OF this] obtain rg d where
    res: "drawRows x y (of_nat N) (of_nat (Suc n)) c' = Inr (c'\<lparr>registers := rg, display := d\<rparr>)"
    and rg: "rg = (if \<exists>j. Suc n \<le> j \<and> j < N \<and> (\<exists>i. i < 8 \<and> spriteBit c j i
                     \<and> display c' (?row j) (?col i))
               then (registers c')(0xF := 1) else registers c')"
    and d: "\<forall>r cc. d r cc =
            (display c' r cc \<noteq>
               (\<exists>j. Suc n \<le> j \<and> j < N \<and> (\<exists>i. i < 8 \<and> spriteBit c j i
                  \<and> r = ?row j \<and> cc = ?col i)))"
    unfolding sb by blast
  have inj: "?row j \<noteq> ?row n" if "Suc n \<le> j" "j < N" for j
    using shift_mod_inj [of j 32 n "unat y"] that n N by auto
  have dc: "display c' (?row j) cc = display c (?row j) cc" if "Suc n \<le> j" "j < N" for j cc
    using inj [OF that] d1 by (simp add: c'_def)
  have coll: "(\<exists>j. Suc n \<le> j \<and> j < N \<and> (\<exists>i. i < 8 \<and> spriteBit c j i \<and> display c' (?row j) (?col i)))
        = (\<exists>j. Suc n \<le> j \<and> j < N \<and> (\<exists>i. i < 8 \<and> spriteBit c j i \<and> display c (?row j) (?col i)))"
    using dc by blast
  have 1: "drawRows x y (of_nat N) (of_nat n) c = Inr (c\<lparr>registers := rg, display := d\<rparr>)"
    unfolding step res by (simp add: c'_def)
  have 2: "rg = (if \<exists>j. n \<le> j \<and> j < N \<and> (\<exists>i. i < 8 \<and> spriteBit c j i \<and> display c (?row j) (?col i))
               then (registers c)(0xF := 1) else registers c)"
    unfolding rg coll ex_split_first [OF n] by (auto simp: c'_def rg1)
  have 3: "d r cc = (display c r cc \<noteq>
               (\<exists>j. n \<le> j \<and> j < N \<and> (\<exists>i. i < 8 \<and> spriteBit c j i \<and> r = ?row j \<and> cc = ?col i)))" for r cc
  proof -
    define here where "here \<longleftrightarrow> (\<exists>i. i < 8 \<and> spriteBit c n i \<and> r = ?row n \<and> cc = ?col i)"
    define later where "later \<longleftrightarrow>
      (\<exists>j. Suc n \<le> j \<and> j < N \<and> (\<exists>i. i < 8 \<and> spriteBit c j i \<and> r = ?row j \<and> cc = ?col i))"
    have all: "(\<exists>j. n \<le> j \<and> j < N \<and> (\<exists>i. i < 8 \<and> spriteBit c j i \<and> r = ?row j \<and> cc = ?col i))
        = (here \<or> later)"
      unfolding here_def later_def by (rule ex_split_first [OF n])
    have dd: "d r cc = (display c' r cc \<noteq> later)"
      unfolding later_def by (rule d [rule_format])
    have "display c' r cc = d1 r cc"
      by (simp add: c'_def)
    also have "\<dots> = (display c r cc \<noteq> (r = ?row n \<and> (\<exists>i. i < 8 \<and> spriteBit c n i \<and> cc = ?col i)))"
      by (rule d1 [rule_format])
    also have "(r = ?row n \<and> (\<exists>i. i < 8 \<and> spriteBit c n i \<and> cc = ?col i)) = here"
      unfolding here_def by blast
    finally have d1': "display c' r cc = (display c r cc \<noteq> here)" .
    have "r = ?row n" if here
      using that unfolding here_def by blast
    moreover have "r \<noteq> ?row n" if later
    proof -
      from that obtain j where "Suc n \<le> j" "j < N" "r = ?row j"
        unfolding later_def by blast
      with inj [of j] show ?thesis by simp
    qed
    ultimately have excl: "\<not> (here \<and> later)"
      by blast
    show ?thesis
      unfolding all dd d1' using excl by blast
  qed
  from 1 2 3 show ?case
    by blast
qed


lemma opN_bound: "opN c < 16"
proof -
  have "opcode c AND 0x000F \<le> 0x000F"
    by (rule word_and_le1)
  then show ?thesis
    by (simp add: opN_def word_le_nat_alt)
qed

text \<open>
  C1, as the claim states it for every machine state, fails: with I = 0x1000 and N = 1
  the sprite row lies outside the 4096 bytes of memory, and the draw ends in the run-time
  panic of the array access instead of a state with a value in VF.
\<close>

theorem draw_sprite_counterexample:
  "opDXYN (drawState 0x1000 blankDisplay) = Inl (IndexOutOfRange 4096 4096)"
  by (simp add: opDXYN_def drawState_def zeroChip8_def drawRows.simps readMemory_def
      memorySize_def setVF_def)


text \<open>
  C1, amended. For every machine state in which the N sprite rows lie inside memory
  (N = 0 or I + N \<le> 4096), DXYN completes and changes only VF and the frame buffer. A
  frame-buffer cell is inverted exactly when a set bit of the sprite falls on it, bit i
  (most significant first) of row j falling on row (VY + j) mod 32, column
  (VX + i) mod 64, with VX and VY read before VF is reset. VF ends at 1 if some set bit
  falls on a cell that was set, and at 0 otherwise, whatever it held before. The N \<le> 15
  rows and the 8 columns of one draw fall on pairwise distinct cells, so a cell is
  inverted at most once and its value before its inversion is its value before the draw.
\<close>

theorem draw_sprite:
  assumes "opN c8 = 0 \<or> unat (indexRegister c8) + opN c8 \<le> 4096"
  shows "\<exists>vf d. opDXYN c8 = Inr (c8\<lparr>registers := (registers c8)(0xF := vf), display := d\<rparr>)
    \<and> vf = (if \<exists>j<opN c8. \<exists>i<8. spriteBit c8 j i
                  \<and> display c8 ((unat (registers c8 (opY c8)) + j) mod 32)
                                ((unat (registers c8 (opX c8)) + i) mod 64)
             then 1 else 0)
    \<and> (\<forall>r cc. d r cc =
          (display c8 r cc \<noteq>
             (\<exists>j<opN c8. \<exists>i<8. spriteBit c8 j i
                \<and> r = (unat (registers c8 (opY c8)) + j) mod 32
                \<and> cc = (unat (registers c8 (opX c8)) + i) mod 64)))"
proof -
  let ?x = "registers c8 (opX c8)"
  let ?y = "registers c8 (opY c8)"
  let ?N = "opN c8"
  define c0 where "c0 = setVF c8 0"
  have h: "(of_nat ?N :: u16) = opcode c8 AND 0x000F"
    by (simp add: opN_def)
  have run: "opDXYN c8 = drawRows ?x ?y (of_nat ?N) (of_nat 0) c0"
    unfolding h by (simp add: opDXYN_def Let_def c0_def)
  have c0: "indexRegister c0 = indexRegister c8" "display c0 = display c8"
    "registers c0 = (registers c8)(0xF := 0)" "spriteBit c0 = spriteBit c8"
    by (simp_all add: c0_def setVF_def spriteBit_def fun_eq_iff)
  have inb: "\<forall>j. 0 \<le> j \<and> j < ?N \<longrightarrow> unat (indexRegister c0) + j < 4096"
    using assms by (auto simp: c0)
  have z: "0 \<le> ?N"
    by simp
  have e: "(\<exists>j. 0 \<le> j \<and> j < ?N \<and> (\<exists>i. i < 8 \<and> P j i)) = (\<exists>j<?N. \<exists>i<8. P j i)" for P
    by simp
  from rows_loop [OF opN_bound z inb, where x = ?x and y = ?y] obtain rg d where
    res: "drawRows ?x ?y (of_nat ?N) (of_nat 0) c0 = Inr (c0\<lparr>registers := rg, display := d\<rparr>)"
    and rg: "rg = (if \<exists>j. 0 \<le> j \<and> j < ?N \<and> (\<exists>i. i < 8 \<and> spriteBit c0 j i
                     \<and> display c0 ((unat ?y + j) mod 32) ((unat ?x + i) mod 64))
               then (registers c0)(0xF := 1) else registers c0)"
    and d: "\<forall>r cc. d r cc =
            (display c0 r cc \<noteq>
               (\<exists>j. 0 \<le> j \<and> j < ?N \<and> (\<exists>i. i < 8 \<and> spriteBit c0 j i
                  \<and> r = (unat ?y + j) mod 32 \<and> cc = (unat ?x + i) mod 64)))"
    by (elim exE conjE) (rule that; assumption)
  define vf :: u8 where "vf = (if \<exists>j<?N. \<exists>i<8. spriteBit c8 j i
                  \<and> display c8 ((unat ?y + j) mod 32) ((unat ?x + i) mod 64) then 1 else 0)"
  have "rg = (registers c8)(0xF := vf)"
    unfolding rg c0 e vf_def by auto
  then have 1: "opDXYN c8 = Inr (c8\<lparr>registers := (registers c8)(0xF := vf), display := d\<rparr>)"
    unfolding run res by (simp add: c0_def setVF_def)
  have 2: "d r cc = (display c8 r cc \<noteq>
             (\<exists>j<?N. \<exists>i<8. spriteBit c8 j i \<and> r = (unat ?y + j) mod 32 \<and> cc = (unat ?x + i) mod 64))" for r cc
    unfolding d [rule_format] c0 e ..
  from 1 2 show ?thesis
    unfolding vf_def by blast
qed

theorem draw_sprite_witness:
  "unat (indexRegister (drawState 0x300 blankDisplay)) + opN (drawState 0x300 blankDisplay) \<le> 4096
   \<and> (\<exists>d. opDXYN (drawState 0x300 blankDisplay)
            = Inr (drawState 0x300 blankDisplay\<lparr>registers := zeroArray(0xF := 0), display := d\<rparr>)
          \<and> d 0 0 \<and> d 0 7 \<and> \<not> d 0 8 \<and> \<not> d 1 0)
   \<and> (\<exists>d. opDXYN (drawState 0x300 onePixel)
            = Inr (drawState 0x300 onePixel\<lparr>registers := zeroArray(0xF := 1), display := d\<rparr>)
          \<and> d 0 0 \<and> \<not> d 0 3 \<and> \<not> d 0 8)"
proof -
  have v: "opN (drawState 0x300 px) = 1" "opX (drawState 0x300 px) = 0" "opY (drawState 0x300 px) = 1"
    "unat (indexRegister (drawState 0x300 px)) = 0x300" "registers (drawState 0x300 px) = zeroArray"
    "display (drawState 0x300 px) = px" for px
    by (simp_all add: drawState_def zeroChip8_def opN_def opX_def opY_def drop_bit_eq_div)
  have z: "unat (zeroArray k :: u8) = 0" for k
    by (simp add: zeroArray_def)
  have ff: "(0xFF :: u8) = mask 8"
    by (simp add: mask_eq_exp_minus_1)
  have sb: "spriteBit (drawState 0x300 px) 0 i" for px i
    unfolding spriteBit_def ff by (simp add: drawState_def zeroChip8_def ff bit_mask_iff)
  have h: "opN (drawState 0x300 px) = 0
      \<or> unat (indexRegister (drawState 0x300 px)) + opN (drawState 0x300 px) \<le> 4096" for px
    by (simp add: v)
  have cover: "(\<exists>j<1. \<exists>i<8. spriteBit (drawState 0x300 px) j i \<and> P j i) = (\<exists>i<8. P 0 i)" for px P
    using sb by auto
  have hit: "(\<exists>i<8. r = (0 + 0) mod 32 \<and> cc = (0 + i) mod 64) = (r = 0 \<and> cc < 8)" for r cc :: nat
  proof
    assume "\<exists>i<8. r = (0 + 0) mod 32 \<and> cc = (0 + i) mod 64"
    then obtain i where "i < 8" "r = 0" "cc = i mod 64" by auto
    then show "r = 0 \<and> cc < 8" by simp
  next
    assume "r = 0 \<and> cc < 8"
    then have "cc < 8 \<and> r = (0 + 0) mod 32 \<and> cc = (0 + cc) mod 64" by simp
    then show "\<exists>i<8. r = (0 + 0) mod 32 \<and> cc = (0 + i) mod 64" ..
  qed
  have lit: "(\<exists>i<8. onePixel ((0 + 0) mod 32) ((0 + i) mod 64)) = True"
    by (simp add: onePixel_def) (rule exI [of _ 3], simp)
  have dark: "(\<exists>i<8. blankDisplay ((0 + 0) mod 32) ((0 + i) mod 64)) = False"
    by (simp add: blankDisplay_def)
  have a: "\<exists>d. opDXYN (drawState 0x300 blankDisplay)
            = Inr (drawState 0x300 blankDisplay\<lparr>registers := zeroArray(0xF := 0), display := d\<rparr>)
          \<and> d 0 0 \<and> d 0 7 \<and> \<not> d 0 8 \<and> \<not> d 1 0"
    using draw_sprite [OF h [of blankDisplay]]
    unfolding v cover z hit dark by (auto simp: blankDisplay_def)
  have b: "\<exists>d. opDXYN (drawState 0x300 onePixel)
            = Inr (drawState 0x300 onePixel\<lparr>registers := zeroArray(0xF := 1), display := d\<rparr>)
          \<and> d 0 0 \<and> \<not> d 0 3 \<and> \<not> d 0 8"
    using draw_sprite [OF h [of onePixel]]
    unfolding v cover z hit lit by (auto simp: onePixel_def)
  from a b show ?thesis
    by (simp add: v)
qed

end
